theory Spec2Isabelle
  imports Complex_Main "HOL-Library.Multiset"
begin

section \<open>Text primitives\<close>

text \<open>
  Python strings are modelled as \<^typ>\<open>string\<close>, one \<^typ>\<open>char\<close> per code point. The
  character classes below are the ones Python's \<^verbatim>\<open>str\<close> methods and the \<^verbatim>\<open>re\<close> module use
  on ASCII text; text outside ASCII is not covered by the model (such characters are
  treated as caseless symbols that are neither whitespace nor word characters).
\<close>

definition lower_char :: "char \<Rightarrow> char" where
  "lower_char c =
     (case map_of (zip ''ABCDEFGHIJKLMNOPQRSTUVWXYZ'' ''abcdefghijklmnopqrstuvwxyz'') c of
        Some d \<Rightarrow> d
      | None \<Rightarrow> c)"

definition lower :: "string \<Rightarrow> string" where
  "lower s = map lower_char s"

text \<open>\<^verbatim>\<open>str.isspace\<close> and the regex class \<^verbatim>\<open>\s\<close>: TAB, LF, VT, FF, CR, FS, GS, RS, US, SPACE.\<close>

definition is_space :: "char \<Rightarrow> bool" where
  "is_space c \<longleftrightarrow>
     c \<in> set [CHR 0x09, CHR 0x0A, CHR 0x0B, CHR 0x0C, CHR 0x0D,
               CHR 0x1C, CHR 0x1D, CHR 0x1E, CHR 0x1F, CHR '' '']"

definition is_digit :: "char \<Rightarrow> bool" where
  "is_digit c \<longleftrightarrow> c \<in> set ''0123456789''"

definition is_alpha :: "char \<Rightarrow> bool" where
  "is_alpha c \<longleftrightarrow> lower_char c \<in> set ''abcdefghijklmnopqrstuvwxyz''"

text \<open>The regex class \<^verbatim>\<open>\w\<close>.\<close>

definition is_word :: "char \<Rightarrow> bool" where
  "is_word c \<longleftrightarrow> is_alpha c \<or> is_digit c \<or> c = CHR ''_''"

text \<open>\<^verbatim>\<open>s.strip()\<close> and \<^verbatim>\<open>s.strip('-')\<close>.\<close>

definition strip_by :: "(char \<Rightarrow> bool) \<Rightarrow> string \<Rightarrow> string" where
  "strip_by P s = rev (dropWhile P (rev (dropWhile P s)))"

definition strip :: "string \<Rightarrow> string" where
  "strip s = strip_by is_space s"

fun is_prefix :: "string \<Rightarrow> string \<Rightarrow> bool" where
  "is_prefix [] s = True"
| "is_prefix (p # ps) [] = False"
| "is_prefix (p # ps) (c # cs) = (p = c \<and> is_prefix ps cs)"

text \<open>\<^verbatim>\<open>needle in haystack\<close> on strings.\<close>

fun contains :: "string \<Rightarrow> string \<Rightarrow> bool" where
  "contains needle [] = (needle = [])"
| "contains needle (c # cs) = (is_prefix needle (c # cs) \<or> contains needle cs)"

definition ends_with :: "string \<Rightarrow> string \<Rightarrow> bool" where
  "ends_with suffix s = is_prefix (rev suffix) (rev s)"

text \<open>\<^verbatim>\<open>s.split(sep)\<close> for a one-character separator: empty pieces are kept.\<close>

fun split_on :: "char \<Rightarrow> string \<Rightarrow> string list" where
  "split_on sep [] = [[]]"
| "split_on sep (c # cs) =
     (case split_on sep cs of
        [] \<Rightarrow> [[c]]
      | w # ws \<Rightarrow> if c = sep then [] # w # ws else (c # w) # ws)"

text \<open>
  \<^verbatim>\<open>re.sub(r'X+', r, s)\<close> for a character class \<open>X\<close>: every maximal run of characters of
  the class is replaced by the single character \<open>r\<close>. The flag records that the previous
  character belonged to the run being replaced.
\<close>

fun squeeze :: "(char \<Rightarrow> bool) \<Rightarrow> char \<Rightarrow> bool \<Rightarrow> string \<Rightarrow> string" where
  "squeeze P r prev [] = []"
| "squeeze P r prev (c # cs) =
     (if P c then (if prev then squeeze P r True cs else r # squeeze P r True cs)
      else c # squeeze P r False cs)"

text \<open>An optional single character at the front (\<^verbatim>\<open>\[?\<close>, \<^verbatim>\<open>:?\<close>): greedy.\<close>

fun skip_opt :: "char \<Rightarrow> string \<Rightarrow> string" where
  "skip_opt x [] = []"
| "skip_opt x (c # cs) = (if c = x then cs else c # cs)"

text \<open>A literal at the front, compared case-insensitively; the rest of the text on success.\<close>

fun is_prefix_ci :: "string \<Rightarrow> string \<Rightarrow> bool" where
  "is_prefix_ci [] s = True"
| "is_prefix_ci (p # ps) [] = False"
| "is_prefix_ci (p # ps) (c # cs) = (lower_char p = lower_char c \<and> is_prefix_ci ps cs)"

definition lit_ci :: "string \<Rightarrow> string \<Rightarrow> string option" where
  "lit_ci lit s = (if is_prefix_ci lit s then Some (drop (length lit) s) else None)"

text \<open>An alternation of literals: the first alternative that matches is taken.\<close>

fun alt_ci :: "string list \<Rightarrow> string \<Rightarrow> string option" where
  "alt_ci [] s = None"
| "alt_ci (lit # lits) s =
     (case lit_ci lit s of Some rest \<Rightarrow> Some rest | None \<Rightarrow> alt_ci lits s)"

section \<open>Text Normalizer\<close>

text \<open>
  \<^verbatim>\<open>html.unescape\<close> belongs to the standard library; it is a parameter \<open>u\<close> of the functions
  that call it.
\<close>

text \<open>
  The five prefix patterns of \<^verbatim>\<open>normalize_title\<close>, each applied with \<^verbatim>\<open>re.sub\<close> under
  \<^verbatim>\<open>re.IGNORECASE\<close>. Every pattern is anchored at the start and everything after its
  keyword is optional, so the greedy choices never have to be undone.
\<close>

definition strip_tag_prefix :: "string \<Rightarrow> string" where
  "strip_tag_prefix t =
     (case alt_ci [''Non-Constitutional'', ''NonConstitutional'', ''Constitutional'', ''RFC'',
                   ''AIP'', ''Draft'', ''DRAFT'', ''NON-CONSTITUTIONAL'', ''FINAL'']
             (skip_opt CHR ''['' t) of
        None \<Rightarrow> t
      | Some rest \<Rightarrow>
          dropWhile is_space (skip_opt CHR '':'' (dropWhile is_space (skip_opt CHR '']'' rest))))"

definition strip_proposal_prefix :: "string \<Rightarrow> string" where
  "strip_proposal_prefix t =
     (case lit_ci ''Proposal'' t of
        None \<Rightarrow> t
      | Some rest \<Rightarrow> dropWhile is_space (skip_opt CHR '':'' (dropWhile is_space rest)))"

definition strip_hash_prefix :: "string \<Rightarrow> string" where
  "strip_hash_prefix t =
     (case t of
        [] \<Rightarrow> []
      | c # cs \<Rightarrow> if c = CHR ''#'' then dropWhile is_space cs else t)"

definition strip_updated_prefix :: "string \<Rightarrow> string" where
  "strip_updated_prefix t =
     (case lit_ci ''UPDATED'' (skip_opt CHR ''['' t) of
        None \<Rightarrow> t
      | Some rest \<Rightarrow> dropWhile is_space (skip_opt CHR '']'' rest))"

definition normalize_title :: "(string \<Rightarrow> string) \<Rightarrow> string \<Rightarrow> string" where
  "normalize_title u title =
     (if title = [] then []
      else
        let title = u title;
            title = strip_tag_prefix title;
            title = strip_proposal_prefix title;
            title = strip_hash_prefix title;
            title = strip_updated_prefix title;
            title = strip_updated_prefix title
        in lower (strip (squeeze is_space CHR '' '' False title)))"

definition title_to_slug :: "(string \<Rightarrow> string) \<Rightarrow> string \<Rightarrow> string" where
  "title_to_slug u title =
     (if title = [] then []
      else
        let title = lower (u title);
            title = filter (\<lambda>c. is_word c \<or> is_space c \<or> c = CHR ''-'') title;
            title = squeeze is_space CHR ''-'' False title;
            title = squeeze (\<lambda>c. c = CHR ''-'') CHR ''-'' False title
        in strip_by (\<lambda>c. c = CHR ''-'') title)"

section \<open>Link Extractor\<close>

definition forum_prefix :: string where
  "forum_prefix = ''forum.arbitrum.foundation/t/''"

definition is_slug_char :: "char \<Rightarrow> bool" where
  "is_slug_char c \<longleftrightarrow> is_alpha c \<or> is_digit c \<or> c = CHR ''_'' \<or> c = CHR ''-''"

text \<open>
  One match of the link pattern at the front of the text: the slug, the topic id (\<open>None\<close>
  when the optional group is missing or empty) and the number of characters consumed.
\<close>

definition match_link_at :: "string \<Rightarrow> (string \<times> string option \<times> nat) option" where
  "match_link_at text =
     (case lit_ci forum_prefix text of
        None \<Rightarrow> None
      | Some rest \<Rightarrow>
          let slug = takeWhile is_slug_char rest;
              after = dropWhile is_slug_char rest;
              n = length forum_prefix + length slug
          in if slug = [] then None
             else (case after of
                     [] \<Rightarrow> Some (slug, None, n)
                   | c # more \<Rightarrow>
                       let digits = takeWhile is_digit more
                       in if c = CHR ''/'' \<and> digits \<noteq> []
                          then Some (slug, Some digits, n + 1 + length digits)
                          else Some (slug, None, n)))"

text \<open>
  \<^verbatim>\<open>re.findall\<close>: leftmost matches, not overlapping. \<open>skip\<close> counts the characters of the
  last match that are still to be passed over.
\<close>

fun scan_links :: "nat \<Rightarrow> string \<Rightarrow> (string \<times> string option) list" where
  "scan_links skip [] = []"
| "scan_links skip (c # cs) =
     (if skip > 0 then scan_links (skip - 1) cs
      else (case match_link_at (c # cs) of
              None \<Rightarrow> scan_links 0 cs
            | Some (slug, topic_id, n) \<Rightarrow> (lower slug, topic_id) # scan_links (n - 1) cs))"

definition extract_forum_links :: "string \<Rightarrow> (string \<times> string option) list" where
  "extract_forum_links text = (if text = [] then [] else scan_links 0 text)"

section \<open>Category Classifier\<close>

text \<open>\<^verbatim>\<open>re.search(r'lit$', title)\<close>: \<^verbatim>\<open>$\<close> matches at the end and before a final newline.\<close>

definition search_at_end :: "string \<Rightarrow> string \<Rightarrow> bool" where
  "search_at_end lit title \<longleftrightarrow> ends_with lit title \<or> ends_with (lit @ [CHR 0x0A]) title"

definition is_stip_ltipp_protocol :: "string \<Rightarrow> bool" where
  "is_stip_ltipp_protocol title \<longleftrightarrow>
     title \<noteq> [] \<and>
     list_ex (\<lambda>p. search_at_end p title)
       [''STIP Proposal - Round 1'',
        ''STIP Addendum'',
        ''LTIPP Council Recommended Proposal'',
        ''STIP Bridge Challenge'',
        ''LTIPP [Post Council Feedback]'']"

text \<open>\<^verbatim>\<open>.*lit\<close> at the front of the text: \<^verbatim>\<open>.\<close> matches every character but the newline.\<close>

fun dotstar_then :: "string \<Rightarrow> string \<Rightarrow> bool" where
  "dotstar_then lit [] = (lit = [])"
| "dotstar_then lit (c # cs) = (is_prefix lit (c # cs) \<or> (c \<noteq> CHR 0x0A \<and> dotstar_then lit cs))"

text \<open>\<^verbatim>\<open>re.search(r'a.*b', text)\<close> for two literals.\<close>

fun search_pair :: "string \<Rightarrow> string \<Rightarrow> string \<Rightarrow> bool" where
  "search_pair a b [] = (a = [] \<and> b = [])"
| "search_pair a b (c # cs) =
     ((is_prefix a (c # cs) \<and> dotstar_then b (drop (length a) (c # cs))) \<or> search_pair a b cs)"

text \<open>The election patterns: a literal, or two literals with \<^verbatim>\<open>.*\<close> between them.\<close>

datatype pattern = Lit string | Gap string string

fun search_ci :: "pattern \<Rightarrow> string \<Rightarrow> bool" where
  "search_ci (Lit a) title = contains (lower a) (lower title)"
| "search_ci (Gap a b) title = search_pair (lower a) (lower b) (lower title)"

definition is_election :: "string \<Rightarrow> bool" where
  "is_election title \<longleftrightarrow>
     title \<noteq> [] \<and>
     list_ex (\<lambda>p. search_ci p title)
       [Gap ''Security Council'' ''Election'',
        Gap ''reconfirmation'' ''council'',
        Gap ''D.A.O.'' ''Elections'',
        Lit ''Domain Allocator Election'',
        Lit ''Council Election'',
        Gap ''ARDC'' ''Election'',
        Lit ''Advisor Elections'',
        Gap ''Election of'' ''Members'',
        Gap ''Election of'' ''Manager'']"

text \<open>\<^verbatim>\<open>is_skip_tally\<close> of the prompt generator.\<close>

definition garbage_titles :: "string list" where
  "garbage_titles = [''art dra'', ''Arcubtang'', ''AIP 4'']"

definition is_skip_tally :: "string \<Rightarrow> bool" where
  "is_skip_tally title \<longleftrightarrow>
     title = [] \<or> strip title \<in> set garbage_titles \<or> length (strip title) < 3"

section \<open>Canonical entries and the slug index\<close>

record proposal =
  p_id :: string
  p_title :: string

text \<open>
  The string metrics of the \<^verbatim>\<open>rapidfuzz\<close> library and \<^verbatim>\<open>html.unescape\<close> are not
  part of the program: they are fields of the environment, next to the list of canonical
  entries the run was started with. The library returns floating-point scores; they are
  real numbers here. The program only compares scores with each other and with fixed
  thresholds, and scales two of them by fixed factors.
\<close>

record env =
  fuzz_ratio :: "string \<Rightarrow> string \<Rightarrow> real"
  fuzz_partial_ratio :: "string \<Rightarrow> string \<Rightarrow> real"
  fuzz_token_set_ratio :: "string \<Rightarrow> string \<Rightarrow> real"
  html_unescape :: "string \<Rightarrow> string"
  proposals :: "proposal list"

text \<open>A Python dict in insertion order: a stored key keeps its place, a new key goes last.\<close>

fun dict_set :: "'k \<Rightarrow> 'v \<Rightarrow> ('k \<times> 'v) list \<Rightarrow> ('k \<times> 'v) list" where
  "dict_set k v [] = [(k, v)]"
| "dict_set k v ((k', v') # d) = (if k = k' then (k, v) # d else (k', v') # dict_set k v d)"

fun build_slugs ::
  "(string \<Rightarrow> string) \<Rightarrow> proposal list \<Rightarrow> (string \<times> string) list \<Rightarrow> (string \<times> string) list"
where
  "build_slugs u [] d = d"
| "build_slugs u (p # ps) d =
     (let title = u (p_title p);
          slug = title_to_slug u title;
          d = dict_set slug (p_id p) d;
          norm_title = normalize_title u title;
          d = (if norm_title \<noteq> [] then dict_set (title_to_slug u norm_title) (p_id p) d else d)
      in build_slugs u ps d)"

definition proposal_slugs :: "env \<Rightarrow> (string \<times> string) list" where
  "proposal_slugs E = build_slugs (html_unescape E) (proposals E) []"

text \<open>\<^verbatim>\<open>{p['id']: p for p in proposals}\<close>: a later entry replaces an earlier one with its id.\<close>

definition proposal_by_id :: "env \<Rightarrow> string \<Rightarrow> proposal option" where
  "proposal_by_id E = map_of (rev (map (\<lambda>p. (p_id p, p)) (proposals E)))"

section \<open>Slug Matcher\<close>

fun slug_scan ::
  "(string \<Rightarrow> string \<Rightarrow> real) \<Rightarrow> string \<Rightarrow> (string \<times> string) list \<Rightarrow>
   string option \<times> real \<Rightarrow> string option \<times> real"
where
  "slug_scan ratio slug [] best = best"
| "slug_scan ratio slug ((p_slug, pid) # rest) (best_match, best_score) =
     (let score = ratio slug p_slug
      in if score > best_score then slug_scan ratio slug rest (Some pid, score)
         else slug_scan ratio slug rest (best_match, best_score))"

definition find_proposal_by_slug :: "env \<Rightarrow> string \<Rightarrow> string option \<times> real" where
  "find_proposal_by_slug E slug =
     (if slug = [] then (None, 0)
      else
        let slug = lower slug
        in (case map_of (proposal_slugs E) slug of
              Some pid \<Rightarrow> (Some pid, 100)
            | None \<Rightarrow>
                let (best_match, best_score) =
                      slug_scan (fuzz_ratio E) slug (proposal_slugs E) (None, 0)
                in if best_score \<ge> 70 then (best_match, best_score) else (None, best_score)))"

section \<open>Title Matcher\<close>

definition combined_score :: "real \<Rightarrow> real \<Rightarrow> real \<Rightarrow> real" where
  "combined_score score1 score2 score3 = max score1 (max (score2 * 0.95) (score3 * 0.9))"

text \<open>The body of the loop over the canonical entries: the combined score of one entry.\<close>

definition entry_score :: "env \<Rightarrow> string \<Rightarrow> proposal \<Rightarrow> real" where
  "entry_score E norm_title p =
     (let p_norm = normalize_title (html_unescape E) (p_title p);
          score1 = fuzz_ratio E norm_title p_norm;
          score2 = fuzz_partial_ratio E norm_title p_norm;
          score3 = fuzz_token_set_ratio E norm_title p_norm
      in combined_score score1 score2 score3)"

fun title_scan ::
  "env \<Rightarrow> string \<Rightarrow> proposal list \<Rightarrow> proposal option \<times> real \<Rightarrow> proposal option \<times> real"
where
  "title_scan E norm_title [] best = best"
| "title_scan E norm_title (p # ps) (best_match, best_score) =
     (let score = entry_score E norm_title p
      in if score > best_score then title_scan E norm_title ps (Some p, score)
         else title_scan E norm_title ps (best_match, best_score))"

text \<open>
  Subscripting \<open>None\<close> raises \<^verbatim>\<open>TypeError\<close>, and so does comparing \<open>None\<close> with a number.
\<close>

datatype py_error = TypeError

definition find_best_title_match ::
  "env \<Rightarrow> string \<Rightarrow> real \<Rightarrow> py_error + (string option \<times> string option \<times> real)"
where
  "find_best_title_match E title min_score =
     (if title = [] then Inr (None, None, 0)
      else
        let norm_title = normalize_title (html_unescape E) title;
            (best_match, best_score) = title_scan E norm_title (proposals E) (None, 0)
        in if best_score \<ge> min_score
           then (case best_match of
                   None \<Rightarrow> Inl TypeError
                 | Some p \<Rightarrow> Inr (Some (p_id p), Some (html_unescape E (p_title p)), best_score))
           else Inr (None, None, best_score))"

section \<open>Records, results and the override tables\<close>

text \<open>
  A source record is a JSON object. Its \<^verbatim>\<open>id\<close> is required (the program reads it with
  \<^verbatim>\<open>s['id']\<close>); the other keys are optional and are kept in \<open>rec_fields\<close>. The values
  the program reads are strings or \<^verbatim>\<open>null\<close>.
\<close>

datatype jval = JNull | JStr string

record source_record =
  rec_id :: string
  rec_fields :: "string \<rightharpoonup> jval"

text \<open>\<^verbatim>\<open>s.get(key)\<close> and \<^verbatim>\<open>s.get(key) or ''\<close>.\<close>

definition py_get :: "source_record \<Rightarrow> string \<Rightarrow> jval" where
  "py_get s key = (case rec_fields s key of None \<Rightarrow> JNull | Some v \<Rightarrow> v)"

fun or_empty :: "jval \<Rightarrow> string" where
  "or_empty JNull = []"
| "or_empty (JStr x) = x"

text \<open>The texts read from a record; a missing or \<^verbatim>\<open>null\<close> text counts as empty.\<close>

definition rec_title :: "source_record \<Rightarrow> string" where
  "rec_title s = or_empty (py_get s ''title'')"

definition rec_body :: "source_record \<Rightarrow> string" where
  "rec_body s = or_empty (py_get s ''body'')"

definition rec_description :: "source_record \<Rightarrow> string" where
  "rec_description t = or_empty (py_get t ''description'')"

text \<open>Truth value of an optional string: \<open>None\<close> and the empty string are false.\<close>

fun truthy :: "string option \<Rightarrow> bool" where
  "truthy None = False"
| "truthy (Some x) = (x \<noteq> [])"

text \<open>\<^verbatim>\<open>str(x)\<close> of an optional string.\<close>

fun py_str :: "string option \<Rightarrow> string" where
  "py_str None = ''None''"
| "py_str (Some x) = x"

text \<open>The field \<^verbatim>\<open>method\<close> of a result is \<open>res_method\<close> here.\<close>

record match_result =
  res_id :: string
  res_title :: string
  res_author :: jval
  proposal_id :: "string option"
  matched_title :: "string option"
  score :: "real option"
  res_method :: "string option"
  category :: string

record snapshot_result = match_result +
  forum_links :: "(string \<times> string option) list"

record snapshot_results =
  sn_matched_by_link :: "snapshot_result list"
  sn_matched_by_title :: "snapshot_result list"
  sn_low_confidence :: "snapshot_result list"
  sn_stip_ltipp :: "snapshot_result list"
  sn_elections :: "snapshot_result list"
  sn_unmatched :: "snapshot_result list"

record tally_results =
  ta_matched :: "match_result list"
  ta_low_confidence :: "match_result list"
  ta_unmatched :: "match_result list"

definition MANUAL_OVERRIDES_TALLY :: "(string \<times> string) list" where
  "MANUAL_OVERRIDES_TALLY =
     [(''ArbOS 20'', ''8b760c14-6f2b-4069-b326-23653e5c20f9''),
      (''BoLD + Infura Nova Validator'', ''4c1d960e-0ff6-47ba-92cf-d0612f84d2f6''),
      (''Subsidy Fund Proposal from the ADPC'', ''5b5c2bee-ea99-411a-afbb-a1df3f8d1b11''),
      (''ArbOS 51'', ''a952f794-6c33-453b-9e30-83e67dda98e2''),
      (''Safeguarding Software Developers'', ''08bc7918-8046-444c-b689-ebea647cb0ee'')]"

definition MANUAL_OVERRIDES_SNAPSHOT :: "(string \<times> string) list" where
  "MANUAL_OVERRIDES_SNAPSHOT =
     [(''Safeguarding Software Developers'', ''08bc7918-8046-444c-b689-ebea647cb0ee'')]"

section \<open>Matching snapshot entries\<close>

text \<open>The loop over the override table: the first key found in the title wins.\<close>

fun snapshot_override ::
  "env \<Rightarrow> (string \<times> string) list \<Rightarrow> string \<Rightarrow> snapshot_result \<Rightarrow> snapshot_result"
where
  "snapshot_override E [] title result = result"
| "snapshot_override E ((key, pid) # rest) title result =
     (if contains (lower key) (lower title)
      then result\<lparr>proposal_id := Some pid,
                  res_method := Some ''manual_override'',
                  score := Some 100,
                  matched_title :=
                    Some (case proposal_by_id E pid of
                            Some p \<Rightarrow> p_title p
                          | None \<Rightarrow> ''Manual'')\<rparr>
      else snapshot_override E rest title result)"

text \<open>The links the snapshot loop passes over: references to a whole programme.\<close>

definition is_generic_link :: "string \<Rightarrow> bool" where
  "is_generic_link slug \<longleftrightarrow>
     (contains ''short-term-incentive'' slug \<or> ''stip'' \<in> set (split_on CHR ''-'' slug)) \<or>
     contains ''arbitrum-arbos-upgrades'' slug"

fun snapshot_link_scan ::
  "env \<Rightarrow> (string \<times> string option) list \<Rightarrow> string option \<times> real \<times> string option \<Rightarrow>
   string option \<times> real \<times> string option"
where
  "snapshot_link_scan E [] best = best"
| "snapshot_link_scan E ((slug, topic_id) # rest) (best_link_match, best_link_score, best_link_slug) =
     (if is_generic_link slug
      then snapshot_link_scan E rest (best_link_match, best_link_score, best_link_slug)
      else
        let (pid, score) = find_proposal_by_slug E slug
        in if score > best_link_score then snapshot_link_scan E rest (pid, score, Some slug)
           else snapshot_link_scan E rest (best_link_match, best_link_score, best_link_slug))"

text \<open>The two assignments the decision chooses between.\<close>

definition use_title_match ::
  "snapshot_result \<Rightarrow> string option \<Rightarrow> string option \<Rightarrow> real \<Rightarrow> snapshot_result"
where
  "use_title_match result title_match_id title_match_title title_score =
     result\<lparr>proposal_id := title_match_id,
            matched_title := title_match_title,
            score := Some title_score,
            res_method := Some ''title_fuzzy''\<rparr>"

definition use_link_match ::
  "env \<Rightarrow> snapshot_result \<Rightarrow> string option \<Rightarrow> real \<Rightarrow> string option \<Rightarrow>
   py_error + snapshot_result"
where
  "use_link_match E result best_link_match best_link_score best_link_slug =
     (case best_link_slug of
        None \<Rightarrow> Inl TypeError
      | Some slug \<Rightarrow>
          Inr (result\<lparr>proposal_id := best_link_match,
                      score := Some best_link_score,
                      res_method := Some (''forum_link_slug ('' @ take 30 slug @ ''...)''),
                      matched_title :=
                        (case best_link_match of
                           None \<Rightarrow> None
                         | Some pid \<Rightarrow>
                             (case proposal_by_id E pid of
                                None \<Rightarrow> None
                              | Some p \<Rightarrow> Some (html_unescape E (p_title p))))\<rparr>))"

definition snapshot_select ::
  "env \<Rightarrow> snapshot_result \<Rightarrow> string option \<times> string option \<times> real \<Rightarrow>
   string option \<times> real \<times> string option \<Rightarrow> py_error + snapshot_result"
where
  "snapshot_select E result title_match link_match =
     (let (title_match_id, title_match_title, title_score) = title_match;
          (best_link_match, best_link_score, best_link_slug) = link_match
      in if truthy title_match_id \<and> title_score \<ge> 70
         then Inr (use_title_match result title_match_id title_match_title title_score)
         else if truthy best_link_match \<and> best_link_score \<ge> 70
         then use_link_match E result best_link_match best_link_score best_link_slug
         else if truthy title_match_id \<and> title_score \<ge> 55
         then Inr (use_title_match result title_match_id title_match_title title_score)
         else if truthy best_link_match \<and> best_link_score \<ge> 60
         then use_link_match E result best_link_match best_link_score best_link_slug
         else Inr result)"

definition snapshot_categorize ::
  "snapshot_results \<Rightarrow> snapshot_result \<Rightarrow> py_error + snapshot_results"
where
  "snapshot_categorize acc result =
     (if truthy (proposal_id result)
      then (case score result of
              None \<Rightarrow> Inl TypeError
            | Some sc \<Rightarrow>
                if sc \<ge> 70
                then (if contains ''forum_link'' (py_str (res_method result))
                      then Inr (acc\<lparr>sn_matched_by_link := sn_matched_by_link acc @ [result]\<rparr>)
                      else Inr (acc\<lparr>sn_matched_by_title := sn_matched_by_title acc @ [result]\<rparr>))
                else Inr (acc\<lparr>sn_low_confidence :=
                                  sn_low_confidence acc @ [result\<lparr>category := ''low_confidence''\<rparr>]\<rparr>))
      else Inr (acc\<lparr>sn_unmatched := sn_unmatched acc @ [result]\<rparr>))"

text \<open>The result record every iteration starts from.\<close>

definition snapshot_result_init :: "source_record \<Rightarrow> string \<Rightarrow> snapshot_result" where
  "snapshot_result_init s title =
     \<lparr>res_id = rec_id s, res_title = title, res_author = py_get s ''author_name'',
      proposal_id = None, matched_title = None, score = None, res_method = None,
      category = ''standard'', forum_links = []\<rparr>"

text \<open>The body of the loop over \<^verbatim>\<open>snapshot_stage\<close>.\<close>

definition snapshot_step :: "env \<Rightarrow> snapshot_results \<Rightarrow> source_record \<Rightarrow> py_error + snapshot_results"
where
  "snapshot_step E acc s =
     (let title = rec_title s;
          body = rec_body s;
          result = snapshot_result_init s title
      in if is_stip_ltipp_protocol title
         then Inr (acc\<lparr>sn_stip_ltipp :=
                          sn_stip_ltipp acc @
                          [result\<lparr>category := ''stip_ltipp_protocol'',
                                  forum_links := extract_forum_links body\<rparr>]\<rparr>)
         else if is_election title
         then Inr (acc\<lparr>sn_elections := sn_elections acc @ [result\<lparr>category := ''election''\<rparr>]\<rparr>)
         else
           let result = snapshot_override E MANUAL_OVERRIDES_SNAPSHOT title result
           in if truthy (proposal_id result)
              then Inr (acc\<lparr>sn_matched_by_title := sn_matched_by_title acc @ [result]\<rparr>)
              else
                let forum_links = extract_forum_links body;
                    result = result\<lparr>forum_links := forum_links\<rparr>
                in (case find_best_title_match E title 55 of
                      Inl e \<Rightarrow> Inl e
                    | Inr title_match \<Rightarrow>
                        (case snapshot_select E result title_match
                                (snapshot_link_scan E forum_links (None, 0, None)) of
                           Inl e \<Rightarrow> Inl e
                         | Inr result \<Rightarrow> snapshot_categorize acc result)))"

fun snapshot_loop ::
  "env \<Rightarrow> snapshot_results \<Rightarrow> source_record list \<Rightarrow> py_error + snapshot_results"
where
  "snapshot_loop E acc [] = Inr acc"
| "snapshot_loop E acc (s # ss) =
     (case snapshot_step E acc s of
        Inl e \<Rightarrow> Inl e
      | Inr acc' \<Rightarrow> snapshot_loop E acc' ss)"

definition snapshot_results_init :: snapshot_results where
  "snapshot_results_init =
     \<lparr>sn_matched_by_link = [], sn_matched_by_title = [], sn_low_confidence = [],
      sn_stip_ltipp = [], sn_elections = [], sn_unmatched = []\<rparr>"

section \<open>Matching tally entries\<close>

fun tally_override ::
  "env \<Rightarrow> (string \<times> string) list \<Rightarrow> string \<Rightarrow> match_result \<Rightarrow> match_result"
where
  "tally_override E [] title result = result"
| "tally_override E ((key, pid) # rest) title result =
     (if contains (lower key) (lower title)
      then result\<lparr>proposal_id := Some pid,
                  res_method := Some ''manual_override'',
                  score := Some 100,
                  matched_title :=
                    Some (case proposal_by_id E pid of
                            Some p \<Rightarrow> html_unescape E (p_title p)
                          | None \<Rightarrow> ''Manual'')\<rparr>
      else tally_override E rest title result)"

text \<open>The loop over the extracted links: it stops at the first link that resolves.\<close>

fun tally_link_scan ::
  "env \<Rightarrow> (string \<times> string option) list \<Rightarrow> match_result \<Rightarrow> match_result"
where
  "tally_link_scan E [] result = result"
| "tally_link_scan E ((slug, topic_id) # rest) result =
     (let (pid, sc) = find_proposal_by_slug E slug
      in if truthy pid \<and> sc \<ge> 70
         then result\<lparr>proposal_id := pid,
                     score := Some sc,
                     res_method := Some ''forum_link_slug'',
                     matched_title :=
                       (case pid of
                          None \<Rightarrow> None
                        | Some i \<Rightarrow>
                            (case proposal_by_id E i of
                               None \<Rightarrow> None
                             | Some p \<Rightarrow> Some (html_unescape E (p_title p))))\<rparr>
         else tally_link_scan E rest result)"

definition tally_title_match :: "env \<Rightarrow> string \<Rightarrow> match_result \<Rightarrow> py_error + match_result" where
  "tally_title_match E title result =
     (case find_best_title_match E title 60 of
        Inl e \<Rightarrow> Inl e
      | Inr (pid, ptitle, sc) \<Rightarrow>
          if truthy pid
          then Inr (result\<lparr>proposal_id := pid,
                           matched_title := ptitle,
                           score := Some sc,
                           res_method := Some ''title_fuzzy''\<rparr>)
          else Inr result)"

definition tally_categorize :: "tally_results \<Rightarrow> match_result \<Rightarrow> py_error + tally_results" where
  "tally_categorize acc result =
     (if truthy (proposal_id result)
      then (case score result of
              None \<Rightarrow> Inl TypeError
            | Some sc \<Rightarrow>
                if sc \<ge> 75
                then Inr (acc\<lparr>ta_matched := ta_matched acc @ [result]\<rparr>)
                else Inr (acc\<lparr>ta_low_confidence :=
                                  ta_low_confidence acc @ [result\<lparr>category := ''low_confidence''\<rparr>]\<rparr>))
      else Inr (acc\<lparr>ta_unmatched := ta_unmatched acc @ [result]\<rparr>))"

text \<open>The garbage test of the tally loop.\<close>

definition tally_garbage :: "string \<Rightarrow> bool" where
  "tally_garbage title \<longleftrightarrow> title = [] \<or> title \<in> set [''art dra'', ''Arcubtang'', ''AIP 4'']"

text \<open>
  The part of the loop body between the garbage test and the bucketing: overrides, then
  links, then the title.
\<close>

definition tally_resolve :: "env \<Rightarrow> string \<Rightarrow> string \<Rightarrow> match_result \<Rightarrow> py_error + match_result"
where
  "tally_resolve E title description result =
     (let result = tally_override E MANUAL_OVERRIDES_TALLY title result;
          result = (if \<not> truthy (proposal_id result)
                    then tally_link_scan E (extract_forum_links description) result
                    else result)
      in if \<not> truthy (proposal_id result) then tally_title_match E title result
         else Inr result)"

definition tally_result_init :: "source_record \<Rightarrow> string \<Rightarrow> match_result" where
  "tally_result_init t title =
     \<lparr>res_id = rec_id t, res_title = title, res_author = py_get t ''author_name'',
      proposal_id = None, matched_title = None, score = None, res_method = None,
      category = ''standard''\<rparr>"

definition tally_step :: "env \<Rightarrow> tally_results \<Rightarrow> source_record \<Rightarrow> py_error + tally_results" where
  "tally_step E acc t =
     (let title = rec_title t;
          description = rec_description t;
          result = tally_result_init t title
      in if tally_garbage title
         then Inr (acc\<lparr>ta_unmatched := ta_unmatched acc @ [result\<lparr>category := ''garbage''\<rparr>]\<rparr>)
         else (case tally_resolve E title description result of
                 Inl e \<Rightarrow> Inl e
               | Inr result \<Rightarrow> tally_categorize acc result))"

fun tally_loop :: "env \<Rightarrow> tally_results \<Rightarrow> source_record list \<Rightarrow> py_error + tally_results" where
  "tally_loop E acc [] = Inr acc"
| "tally_loop E acc (t # ts) =
     (case tally_step E acc t of
        Inl e \<Rightarrow> Inl e
      | Inr acc' \<Rightarrow> tally_loop E acc' ts)"

definition tally_results_init :: tally_results where
  "tally_results_init = \<lparr>ta_matched = [], ta_low_confidence = [], ta_unmatched = []\<rparr>"

section \<open>Output files\<close>

text \<open>The dict from record id to the proposal id of its result; a later result replaces an earlier one.\<close>

fun id_to_proposal ::
  "'a match_result_scheme list \<Rightarrow> (string \<rightharpoonup> string option) \<Rightarrow> (string \<rightharpoonup> string option)"
where
  "id_to_proposal [] d = d"
| "id_to_proposal (r # rs) d = id_to_proposal rs (d(res_id r \<mapsto> proposal_id r))"

fun to_jval :: "string option \<Rightarrow> jval" where
  "to_jval None = JNull"
| "to_jval (Some x) = JStr x"

text \<open>The copy of one record, with \<^verbatim>\<open>proposal_id\<close> stored when the record's id is in the dict.\<close>

definition update_record :: "(string \<rightharpoonup> string option) \<Rightarrow> source_record \<Rightarrow> source_record" where
  "update_record d s =
     (case d (rec_id s) of
        None \<Rightarrow> s
      | Some v \<Rightarrow> s\<lparr>rec_fields := (rec_fields s)(''proposal_id'' \<mapsto> to_jval v)\<rparr>)"

definition snapshot_stage_updated :: "snapshot_results \<Rightarrow> source_record list \<Rightarrow> source_record list"
where
  "snapshot_stage_updated res snapshot_stage =
     map (update_record
            (id_to_proposal (sn_matched_by_title res)
               (id_to_proposal (sn_matched_by_link res) Map.empty)))
         snapshot_stage"

definition tally_stage_updated :: "tally_results \<Rightarrow> source_record list \<Rightarrow> source_record list" where
  "tally_stage_updated res tally_stage =
     map (update_record (id_to_proposal (ta_matched res) Map.empty)) tally_stage"

text \<open>The two runs: the matching loop, then the updated copy of the input.\<close>

definition run_snapshot ::
  "env \<Rightarrow> source_record list \<Rightarrow> py_error + (snapshot_results \<times> source_record list)"
where
  "run_snapshot E snapshot_stage =
     (case snapshot_loop E snapshot_results_init snapshot_stage of
        Inl e \<Rightarrow> Inl e
      | Inr res \<Rightarrow> Inr (res, snapshot_stage_updated res snapshot_stage))"

definition run_tally ::
  "env \<Rightarrow> source_record list \<Rightarrow> py_error + (tally_results \<times> source_record list)"
where
  "run_tally E tally_stage =
     (case tally_loop E tally_results_init tally_stage of
        Inl e \<Rightarrow> Inl e
      | Inr res \<Rightarrow> Inr (res, tally_stage_updated res tally_stage))"

section \<open>Notions used in the statements\<close>

text \<open>All results of a run, bucket after bucket.\<close>

definition snapshot_all :: "snapshot_results \<Rightarrow> snapshot_result list" where
  "snapshot_all res =
     sn_matched_by_link res @ sn_matched_by_title res @ sn_low_confidence res @
     sn_stip_ltipp res @ sn_elections res @ sn_unmatched res"

definition tally_all :: "tally_results \<Rightarrow> match_result list" where
  "tally_all res = ta_matched res @ ta_low_confidence res @ ta_unmatched res"

text \<open>Some key of the override table occurs in the title.\<close>

definition override_hit :: "(string \<times> string) list \<Rightarrow> string \<Rightarrow> bool" where
  "override_hit table title = list_ex (\<lambda>(key, pid). contains (lower key) (lower title)) table"

text \<open>The link resolves: the slug matcher returns a candidate with a score of at least 70.\<close>

definition link_resolves :: "env \<Rightarrow> string \<times> string option \<Rightarrow> bool" where
  "link_resolves E link =
     (truthy (fst (find_proposal_by_slug E (fst link))) \<and>
      70 \<le> snd (find_proposal_by_slug E (fst link)))"

text \<open>A result without a candidate: what every iteration starts from.\<close>

definition unresolved :: "'a match_result_scheme \<Rightarrow> bool" where
  "unresolved r \<longleftrightarrow> proposal_id r = None \<and> score r = None \<and> res_method r = None"

text \<open>The invariant of the results: a candidate is set exactly when a score is set.\<close>

definition candidate_iff_score :: "'a match_result_scheme \<Rightarrow> bool" where
  "candidate_iff_score r \<longleftrightarrow> (proposal_id r \<noteq> None \<longleftrightarrow> score r \<noteq> None)"

text \<open>What a result looks like after the title match, or a link match, was taken.\<close>

definition took_title ::
  "'a match_result_scheme \<Rightarrow> string option \<times> string option \<times> real \<Rightarrow> bool"
where
  "took_title r title_match \<longleftrightarrow>
     proposal_id r = fst title_match \<and> matched_title r = fst (snd title_match) \<and>
     score r = Some (snd (snd title_match)) \<and> res_method r = Some ''title_fuzzy''"

definition took_link :: "'a match_result_scheme \<Rightarrow> string option \<times> real \<Rightarrow> bool" where
  "took_link r link_match \<longleftrightarrow>
     proposal_id r = fst link_match \<and> score r = Some (snd link_match) \<and>
     (\<exists>m. res_method r = Some m \<and> is_prefix ''forum_link_slug'' m)"

text \<open>
  The invariant of the snapshot link scan: a slug is recorded with every candidate, and a
  candidate comes with a score of 70 or more.
\<close>

definition link_inv :: "string option \<times> real \<times> string option \<Rightarrow> bool" where
  "link_inv best \<longleftrightarrow>
     (snd (snd best) = None \<longrightarrow> fst best = None) \<and> (fst best \<noteq> None \<longrightarrow> 70 \<le> fst (snd best))"

text \<open>
  \<open>out\<close> is the updated copy of \<open>stage\<close> for the results \<open>matched\<close>: the same records in
  the same order, every field but \<^verbatim>\<open>proposal_id\<close> as it was; \<^verbatim>\<open>proposal_id\<close> holds the
  candidate of a result in \<open>matched\<close> with the record's id when there is one, and is as it
  was (present or not) otherwise.
\<close>

definition updated_copy_of ::
  "source_record list \<Rightarrow> 'a match_result_scheme list \<Rightarrow> source_record list \<Rightarrow> bool"
where
  "updated_copy_of stage matched out \<longleftrightarrow>
     length out = length stage \<and>
     (\<forall>i < length stage.
        rec_id (out ! i) = rec_id (stage ! i) \<and>
        (\<forall>key. key \<noteq> ''proposal_id'' \<longrightarrow> rec_fields (out ! i) key = rec_fields (stage ! i) key) \<and>
        (if rec_id (stage ! i) \<in> res_id ` set matched
         then \<exists>r \<in> set matched. res_id r = rec_id (stage ! i) \<and> truthy (proposal_id r) \<and>
                rec_fields (out ! i) ''proposal_id'' = Some (to_jval (proposal_id r))
         else rec_fields (out ! i) ''proposal_id'' = rec_fields (stage ! i) ''proposal_id''))"

section \<open>A sample environment\<close>

text \<open>
  The examples below run the program in an environment whose metrics are simple stand-ins
  for the library's. \<open>indel_ratio\<close> is the normalized Indel similarity, which is what
  \<^verbatim>\<open>fuzz.ratio\<close> is documented to compute: twice the length of a longest common
  subsequence over the sum of the lengths, on a scale of 100. The other two metrics are
  \<open>100\<close> on equal non-empty strings, as in the library, and \<open>sample_partial_ratio\<close> is
  \<open>100\<close> when one string occurs inside the other. The examples use titles without
  character references, on which \<^verbatim>\<open>html.unescape\<close> is the identity.
\<close>

fun lcs_len :: "string \<Rightarrow> string \<Rightarrow> nat" where
  "lcs_len [] ys = 0"
| "lcs_len (x # xs) [] = 0"
| "lcs_len (x # xs) (y # ys) =
     (if x = y then Suc (lcs_len xs ys) else max (lcs_len xs (y # ys)) (lcs_len (x # xs) ys))"

definition indel_ratio :: "string \<Rightarrow> string \<Rightarrow> real" where
  "indel_ratio a b =
     (if a = [] \<and> b = [] then 100
      else 200 * real (lcs_len a b) / real (length a + length b))"

definition sample_partial_ratio :: "string \<Rightarrow> string \<Rightarrow> real" where
  "sample_partial_ratio a b =
     (if a = [] \<or> b = [] then (if a = b then 100 else 0)
      else if contains a b \<or> contains b a then 100
      else indel_ratio a b)"

definition sample_token_set_ratio :: "string \<Rightarrow> string \<Rightarrow> real" where
  "sample_token_set_ratio a b = (if a = [] \<or> b = [] then 0 else indel_ratio a b)"

definition sample_env :: "proposal list \<Rightarrow> env" where
  "sample_env ps =
     \<lparr>fuzz_ratio = indel_ratio,
      fuzz_partial_ratio = sample_partial_ratio,
      fuzz_token_set_ratio = sample_token_set_ratio,
      html_unescape = (\<lambda>text. text),
      proposals = ps\<rparr>"

definition sample_proposals :: "proposal list" where
  "sample_proposals =
     [\<lparr>p_id = ''P1'', p_title = ''Alpha Beta''\<rparr>,
      \<lparr>p_id = ''P2'', p_title = ''gamma''\<rparr>,
      \<lparr>p_id = ''P3'', p_title = ''STIP''\<rparr>]"

text \<open>A record with the given id, title and body text (\<^verbatim>\<open>body\<close> and \<^verbatim>\<open>description\<close>).\<close>

definition sample_record :: "string \<Rightarrow> string \<Rightarrow> string \<Rightarrow> source_record" where
  "sample_record i title text =
     \<lparr>rec_id = i,
      rec_fields = [''title'' \<mapsto> JStr title, ''body'' \<mapsto> JStr text, ''description'' \<mapsto> JStr text]\<rparr>"

definition sample_snapshot_stage :: "source_record list" where
  "sample_snapshot_stage =
     [sample_record ''S1'' ''gamma'' [],
      sample_record ''S2'' ''Council Election'' [],
      sample_record ''S3'' ''zzz'' []]"

definition sample_tally_stage :: "source_record list" where
  "sample_tally_stage =
     [sample_record ''T1'' ''gamma'' [],
      sample_record ''T2'' ''AIP 4'' [],
      sample_record ''T3'' ''zzz'' []]"

text \<open>Two records without a title: one without \<^verbatim>\<open>proposal_id\<close>, one that brings a value.\<close>

definition sample_stale_stage :: "source_record list" where
  "sample_stale_stage =
     [\<lparr>rec_id = ''T1'', rec_fields = Map.empty\<rparr>,
      \<lparr>rec_id = ''T2'', rec_fields = [''proposal_id'' \<mapsto> JStr ''old'']\<rparr>]"

section \<open>The scans keep the best score\<close>



lemma slug_scan_attained:
  "slug_scan ratio slug d (bm, bs) = (bm', bs') \<Longrightarrow>
   (bm' = bm \<and> bs' = bs) \<or> (\<exists>(k, v) \<in> set d. bm' = Some v \<and> bs' = ratio slug k \<and> bs < bs')"
proof (induction d arbitrary: bm bs)
  case Nil
  then show ?case by simp
next
  case (Cons kv d)
  obtain k v where kv: "kv = (k, v)" by (cases kv)
  show ?case
  proof (cases "ratio slug k > bs")
    case True
    with Cons.prems kv have step: "slug_scan ratio slug d (Some v, ratio slug k) = (bm', bs')"
      by simp
    from Cons.IH[OF step] True kv show ?thesis by fastforce
  next
    case False
    with Cons.prems kv have "slug_scan ratio slug d (bm, bs) = (bm', bs')" by simp
    from Cons.IH[OF this] show ?thesis by auto
  qed
qed

lemma title_scan_mono:
  "title_scan E nt ps (bm, bs) = (bm', bs') \<Longrightarrow> bs \<le> bs'"
proof (induction ps arbitrary: bm bs)
  case Nil
  then show ?case by simp
next
  case (Cons p ps)
  show ?case
  proof (cases "entry_score E nt p > bs")
    case True
    with Cons.prems have "title_scan E nt ps (Some p, entry_score E nt p) = (bm', bs')"
      by simp
    from Cons.IH[OF this] True show ?thesis by simp
  next
    case False
    with Cons.prems have "title_scan E nt ps (bm, bs) = (bm', bs')" by simp
    from Cons.IH[OF this] show ?thesis .
  qed
qed

lemma title_scan_upper:
  "title_scan E nt ps (bm, bs) = (bm', bs') \<Longrightarrow> p \<in> set ps \<Longrightarrow> entry_score E nt p \<le> bs'"
proof (induction ps arbitrary: bm bs)
  case Nil
  then show ?case by simp
next
  case (Cons q ps)
  show ?case
  proof (cases "entry_score E nt q > bs")
    case True
    with Cons.prems(1) have step: "title_scan E nt ps (Some q, entry_score E nt q) = (bm', bs')"
      by simp
    show ?thesis
    proof (cases "p = q")
      case True
      with title_scan_mono[OF step] show ?thesis by simp
    next
      case False
      with Cons.prems(2) have "p \<in> set ps" by simp
      from Cons.IH[OF step this] show ?thesis .
    qed
  next
    case False
    with Cons.prems(1) have step: "title_scan E nt ps (bm, bs) = (bm', bs')" by simp
    show ?thesis
    proof (cases "p = q")
      case True
      with title_scan_mono[OF step] False show ?thesis by simp
    next
      case False
      with Cons.prems(2) have "p \<in> set ps" by simp
      from Cons.IH[OF step this] show ?thesis .
    qed
  qed
qed

lemma title_scan_attained:
  "title_scan E nt ps (bm, bs) = (bm', bs') \<Longrightarrow>
   (bm' = bm \<and> bs' = bs) \<or> (\<exists>p \<in> set ps. bm' = Some p \<and> bs' = entry_score E nt p \<and> bs < bs')"
proof (induction ps arbitrary: bm bs)
  case Nil
  then show ?case by simp
next
  case (Cons q ps)
  show ?case
  proof (cases "entry_score E nt q > bs")
    case True
    with Cons.prems have step: "title_scan E nt ps (Some q, entry_score E nt q) = (bm', bs')"
      by simp
    from Cons.IH[OF step] True show ?thesis by fastforce
  next
    case False
    with Cons.prems have "title_scan E nt ps (bm, bs) = (bm', bs')" by simp
    from Cons.IH[OF this] show ?thesis by auto
  qed
qed

section \<open>What the two matchers return\<close>

lemma find_proposal_by_slug_cases:
  "find_proposal_by_slug E slug = (m, sc) \<Longrightarrow> (m = None \<and> sc < 70) \<or> (\<exists>pid. m = Some pid \<and> 70 \<le> sc)"
proof -
  assume a: "find_proposal_by_slug E slug = (m, sc)"
  show ?thesis
  proof (cases "slug = []")
    case True
    with a show ?thesis by (simp add: find_proposal_by_slug_def)
  next
    case False
    show ?thesis
    proof (cases "map_of (proposal_slugs E) (lower slug)")
      case (Some pid)
      with False have "find_proposal_by_slug E slug = (Some pid, 100)"
        by (simp add: find_proposal_by_slug_def)
      with a show ?thesis by auto
    next
      case None
      obtain bm bs where sc: "slug_scan (fuzz_ratio E) (lower slug) (proposal_slugs E) (None, 0) = (bm, bs)"
        by (cases "slug_scan (fuzz_ratio E) (lower slug) (proposal_slugs E) (None, 0)")
      from slug_scan_attained[OF sc] have "bm = None \<and> bs = 0 \<or> (\<exists>v. bm = Some v)" by auto
      with a False None sc show ?thesis
        by (auto simp: find_proposal_by_slug_def split: if_splits)
    qed
  qed
qed

lemma find_best_title_match_cases:
  assumes "0 < min_score"
  shows "(\<exists>sc. find_best_title_match E title min_score = Inr (None, None, sc) \<and> sc < min_score) \<or>
         (\<exists>p sc. find_best_title_match E title min_score =
                   Inr (Some (p_id p), Some (html_unescape E (p_title p)), sc) \<and>
                 p \<in> set (proposals E) \<and> min_score \<le> sc)"
proof (cases "title = []")
  case True
  with assms show ?thesis by (simp add: find_best_title_match_def)
next
  case False
  obtain bm bs where sc:
    "title_scan E (normalize_title (html_unescape E) title) (proposals E) (None, 0) = (bm, bs)"
    by (cases "title_scan E (normalize_title (html_unescape E) title) (proposals E) (None, 0)")
  from title_scan_attained[OF sc]
  have "bm = None \<and> bs = 0 \<or> (\<exists>p \<in> set (proposals E). bm = Some p)" by auto
  with False sc assms show ?thesis
    by (auto simp: find_best_title_match_def)
qed

section \<open>The override tables\<close>

lemma snapshot_override_miss:
  "\<not> override_hit table title \<Longrightarrow> snapshot_override E table title r = r"
  by (induction table) (auto simp: override_hit_def)

lemma snapshot_override_hit:
  "override_hit table title \<Longrightarrow>
   \<exists>pid mt. (\<exists>key. (key, pid) \<in> set table) \<and>
     snapshot_override E table title r =
       r\<lparr>proposal_id := Some pid, res_method := Some ''manual_override'', score := Some 100,
         matched_title := Some mt\<rparr>"
proof (induction table)
  case Nil
  then show ?case by (simp add: override_hit_def)
next
  case (Cons kv table)
  obtain key pid where kv: "kv = (key, pid)" by (cases kv)
  show ?case
  proof (cases "contains (lower key) (lower title)")
    case True
    with kv show ?thesis by auto
  next
    case False
    with Cons.prems kv have "override_hit table title" by (simp add: override_hit_def)
    from Cons.IH[OF this] False kv show ?thesis by auto
  qed
qed

lemma tally_override_miss:
  "\<not> override_hit table title \<Longrightarrow> tally_override E table title r = r"
  by (induction table) (auto simp: override_hit_def)

lemma tally_override_hit:
  "override_hit table title \<Longrightarrow>
   \<exists>pid mt. (\<exists>key. (key, pid) \<in> set table) \<and>
     tally_override E table title r =
       r\<lparr>proposal_id := Some pid, res_method := Some ''manual_override'', score := Some 100,
         matched_title := Some mt\<rparr>"
proof (induction table)
  case Nil
  then show ?case by (simp add: override_hit_def)
next
  case (Cons kv table)
  obtain key pid where kv: "kv = (key, pid)" by (cases kv)
  show ?case
  proof (cases "contains (lower key) (lower title)")
    case True
    with kv show ?thesis by auto
  next
    case False
    with Cons.prems kv have "override_hit table title" by (simp add: override_hit_def)
    from Cons.IH[OF this] False kv show ?thesis by auto
  qed
qed

lemma snapshot_table_ids: "(key, pid) \<in> set MANUAL_OVERRIDES_SNAPSHOT \<Longrightarrow> pid \<noteq> []"
  by (auto simp: MANUAL_OVERRIDES_SNAPSHOT_def)

lemma tally_table_ids: "(key, pid) \<in> set MANUAL_OVERRIDES_TALLY \<Longrightarrow> pid \<noteq> []"
  by (auto simp: MANUAL_OVERRIDES_TALLY_def)

section \<open>The link scans\<close>

lemma snapshot_link_scan_Cons:
  "find_proposal_by_slug E slug = (pid, sc) \<Longrightarrow>
   snapshot_link_scan E ((slug, topic) # rest) (bm, bs, bsl) =
     (if is_generic_link slug then snapshot_link_scan E rest (bm, bs, bsl)
      else if sc > bs then snapshot_link_scan E rest (pid, sc, Some slug)
      else snapshot_link_scan E rest (bm, bs, bsl))"
  by simp

lemma snapshot_link_scan_inv:
  "link_inv best \<Longrightarrow> link_inv (snapshot_link_scan E links best)"
proof (induction links arbitrary: best)
  case Nil
  then show ?case by simp
next
  case (Cons link links)
  obtain slug topic where link: "link = (slug, topic)" by (cases link)
  obtain bm bs bsl where best: "best = (bm, bs, bsl)" by (cases best)
  obtain pid sc where fp: "find_proposal_by_slug E slug = (pid, sc)"
    by (cases "find_proposal_by_slug E slug")
  from find_proposal_by_slug_cases[OF fp] have "link_inv (pid, sc, Some slug)"
    by (auto simp: link_inv_def)
  with Cons.prems Cons.IH link best fp show ?case by simp
qed

lemma snapshot_link_scan_skip:
  "snapshot_link_scan E links best =
   snapshot_link_scan E (filter (\<lambda>link. \<not> is_generic_link (fst link)) links) best"
proof (induction links arbitrary: best)
  case Nil
  then show ?case by simp
next
  case (Cons link links)
  obtain slug topic where link: "link = (slug, topic)" by (cases link)
  obtain bm bs bsl where best: "best = (bm, bs, bsl)" by (cases best)
  from Cons.IH link best show ?case by (simp split: prod.splits)
qed

lemma snapshot_link_scan_mono:
  "snapshot_link_scan E links (bm, bs, bsl) = (bm', bs', bsl') \<Longrightarrow> bs \<le> bs'"
proof (induction links arbitrary: bm bs bsl)
  case Nil
  then show ?case by simp
next
  case (Cons link links)
  obtain slug topic where link: "link = (slug, topic)" by (cases link)
  obtain pid sc where fp: "find_proposal_by_slug E slug = (pid, sc)"
    by (cases "find_proposal_by_slug E slug")
  show ?case
  proof (cases "\<not> is_generic_link slug \<and> sc > bs")
    case True
    with Cons.prems link fp have "snapshot_link_scan E links (pid, sc, Some slug) = (bm', bs', bsl')"
      by simp
    from Cons.IH[OF this] True show ?thesis by simp
  next
    case False
    with Cons.prems link snapshot_link_scan_Cons[OF fp, of topic links bm bs bsl]
    have "snapshot_link_scan E links (bm, bs, bsl) = (bm', bs', bsl')"
      by (auto simp del: snapshot_link_scan.simps split: if_splits)
    from Cons.IH[OF this] show ?thesis .
  qed
qed

lemma snapshot_link_scan_upper:
  "snapshot_link_scan E links (bm, bs, bsl) = (bm', bs', bsl') \<Longrightarrow> link \<in> set links \<Longrightarrow>
   \<not> is_generic_link (fst link) \<Longrightarrow> snd (find_proposal_by_slug E (fst link)) \<le> bs'"
proof (induction links arbitrary: bm bs bsl)
  case Nil
  then show ?case by simp
next
  case (Cons l links)
  obtain slug topic where l: "l = (slug, topic)" by (cases l)
  obtain pid sc where fp: "find_proposal_by_slug E slug = (pid, sc)"
    by (cases "find_proposal_by_slug E slug")
  show ?case
  proof (cases "\<not> is_generic_link slug \<and> sc > bs")
    case True
    with Cons.prems(1) l fp
    have step: "snapshot_link_scan E links (pid, sc, Some slug) = (bm', bs', bsl')" by simp
    show ?thesis
    proof (cases "link = l")
      case True
      with snapshot_link_scan_mono[OF step] l fp show ?thesis by simp
    next
      case False
      with Cons.prems(2) have "link \<in> set links" by simp
      from Cons.IH[OF step this Cons.prems(3)] show ?thesis .
    qed
  next
    case False
    with Cons.prems(1) l snapshot_link_scan_Cons[OF fp, of topic links bm bs bsl]
    have step: "snapshot_link_scan E links (bm, bs, bsl) = (bm', bs', bsl')"
      by (auto simp del: snapshot_link_scan.simps split: if_splits)
    show ?thesis
    proof (cases "link = l")
      case True
      with snapshot_link_scan_mono[OF step] l fp False Cons.prems(3) show ?thesis by auto
    next
      case False
      with Cons.prems(2) have "link \<in> set links" by simp
      from Cons.IH[OF step this Cons.prems(3)] show ?thesis .
    qed
  qed
qed

lemma snapshot_link_scan_attained:
  "snapshot_link_scan E links best = best \<or>
   (\<exists>link \<in> set links. \<not> is_generic_link (fst link) \<and>
      snapshot_link_scan E links best =
        (fst (find_proposal_by_slug E (fst link)), snd (find_proposal_by_slug E (fst link)),
         Some (fst link)))"
proof (induction links arbitrary: best)
  case Nil
  then show ?case by simp
next
  case (Cons l links)
  obtain slug topic where l: "l = (slug, topic)" by (cases l)
  obtain bm bs bsl where best: "best = (bm, bs, bsl)" by (cases best)
  obtain pid sc where fp: "find_proposal_by_slug E slug = (pid, sc)"
    by (cases "find_proposal_by_slug E slug")
  show ?case
  proof (cases "\<not> is_generic_link slug \<and> sc > bs")
    case True
    with l best fp
    have step: "snapshot_link_scan E (l # links) best = snapshot_link_scan E links (pid, sc, Some slug)"
      by simp
    from Cons.IH[of "(pid, sc, Some slug)"] step True l fp show ?thesis by auto
  next
    case False
    with l best snapshot_link_scan_Cons[OF fp, of topic links bm bs bsl]
    have step: "snapshot_link_scan E (l # links) best = snapshot_link_scan E links best"
      by (auto simp del: snapshot_link_scan.simps split: if_splits)
    from Cons.IH[of best] step show ?thesis by auto
  qed
qed

lemma tally_link_scan_find:
  "tally_link_scan E links result =
   (case find (link_resolves E) links of
      None \<Rightarrow> result
    | Some link \<Rightarrow>
        result\<lparr>proposal_id := fst (find_proposal_by_slug E (fst link)),
               score := Some (snd (find_proposal_by_slug E (fst link))),
               res_method := Some ''forum_link_slug'',
               matched_title :=
                 (case fst (find_proposal_by_slug E (fst link)) of
                    None \<Rightarrow> None
                  | Some i \<Rightarrow>
                      (case proposal_by_id E i of
                         None \<Rightarrow> None
                       | Some p \<Rightarrow> Some (html_unescape E (p_title p))))\<rparr>)"
proof (induction links)
  case Nil
  then show ?case by simp
next
  case (Cons l links)
  obtain slug topic where l: "l = (slug, topic)" by (cases l)
  obtain pid sc where fp: "find_proposal_by_slug E slug = (pid, sc)"
    by (cases "find_proposal_by_slug E slug")
  from Cons.IH l fp show ?case by (simp add: link_resolves_def)
qed

section \<open>One iteration of the snapshot loop\<close>

lemma snapshot_result_init_unresolved:
  "unresolved (snapshot_result_init s title)"
  "res_id (snapshot_result_init s title) = rec_id s"
  "category (snapshot_result_init s title) = ''standard''"
  by (simp_all add: unresolved_def snapshot_result_init_def)

lemma snapshot_select_result:
  assumes "unresolved result" and "link_inv (lid, ls, lslug)"
  shows "\<exists>r. snapshot_select E result (tid, tt, ts) (lid, ls, lslug) = Inr r \<and>
           res_id r = res_id result \<and> candidate_iff_score r \<and>
           (if truthy tid \<and> 70 \<le> ts then took_title r (tid, tt, ts)
            else if truthy lid \<and> 70 \<le> ls then took_link r (lid, ls)
            else if truthy tid \<and> 55 \<le> ts then took_title r (tid, tt, ts)
            else if truthy lid \<and> 60 \<le> ls then took_link r (lid, ls)
            else r = result)"
proof -
  have tid: "truthy tid \<Longrightarrow> tid \<noteq> None" by (cases tid) auto
  have lid: "truthy lid \<Longrightarrow> lid \<noteq> None \<and> (\<exists>slug. lslug = Some slug)"
    using assms(2) by (cases lid; cases lslug) (auto simp: link_inv_def)
  show ?thesis
  proof (cases "truthy tid \<and> 55 \<le> ts")
    case True
    with tid show ?thesis
      using lid
      by (auto simp: snapshot_select_def use_title_match_def use_link_match_def
            took_title_def took_link_def candidate_iff_score_def)
  next
    case False
    show ?thesis
    proof (cases "truthy lid \<and> 60 \<le> ls")
      case True
      with lid obtain slug where "lslug = Some slug" "lid \<noteq> None" by auto
      with True False show ?thesis
        by (auto simp: snapshot_select_def use_title_match_def use_link_match_def
              took_title_def took_link_def candidate_iff_score_def)
    next
      case no_link: False
      with False assms(1) show ?thesis
        by (auto simp: snapshot_select_def unresolved_def candidate_iff_score_def)
    qed
  qed
qed

lemma snapshot_categorize_adds:
  assumes "candidate_iff_score r"
  shows "\<exists>acc' r'. snapshot_categorize acc r = Inr acc' \<and>
           mset (snapshot_all acc') = add_mset r' (mset (snapshot_all acc)) \<and>
           res_id r' = res_id r \<and> candidate_iff_score r'"
proof (cases "truthy (proposal_id r)")
  case True
  then have "proposal_id r \<noteq> None" by (cases "proposal_id r") auto
  with assms obtain sc where sc: "score r = Some sc" by (auto simp: candidate_iff_score_def)
  have low: "candidate_iff_score (r\<lparr>category := ''low_confidence''\<rparr>)"
    using assms by (simp add: candidate_iff_score_def)
  from True sc assms low show ?thesis
    by (auto simp: snapshot_categorize_def snapshot_all_def)
next
  case False
  with assms show ?thesis
    by (auto simp: snapshot_categorize_def snapshot_all_def)
qed


text \<open>The four ways through the loop body.\<close>

lemma snapshot_step_stip:
  assumes "is_stip_ltipp_protocol (rec_title s)"
  shows "snapshot_step E acc s =
         Inr (acc\<lparr>sn_stip_ltipp :=
                     sn_stip_ltipp acc @
                     [(snapshot_result_init s (rec_title s))
                        \<lparr>category := ''stip_ltipp_protocol'',
                         forum_links := extract_forum_links (rec_body s)\<rparr>]\<rparr>)"
  using assms by (simp add: snapshot_step_def)

lemma snapshot_step_election:
  assumes "\<not> is_stip_ltipp_protocol (rec_title s)"
    and "is_election (rec_title s)"
  shows "snapshot_step E acc s =
         Inr (acc\<lparr>sn_elections :=
                     sn_elections acc @
                     [(snapshot_result_init s (rec_title s))
                        \<lparr>category := ''election''\<rparr>]\<rparr>)"
  using assms by (simp add: snapshot_step_def)

lemma snapshot_step_override:
  assumes "\<not> is_stip_ltipp_protocol (rec_title s)"
    and "\<not> is_election (rec_title s)"
    and "override_hit MANUAL_OVERRIDES_SNAPSHOT (rec_title s)"
  shows "\<exists>pid mt. pid \<noteq> [] \<and>
           snapshot_step E acc s =
           Inr (acc\<lparr>sn_matched_by_title :=
                       sn_matched_by_title acc @
                       [(snapshot_result_init s (rec_title s))
                          \<lparr>proposal_id := Some pid, res_method := Some ''manual_override'',
                           score := Some 100, matched_title := Some mt\<rparr>]\<rparr>)"
proof -
  from snapshot_override_hit[OF assms(3)]
  obtain pid mt key where tab: "(key, pid) \<in> set MANUAL_OVERRIDES_SNAPSHOT"
    and ov: "snapshot_override E MANUAL_OVERRIDES_SNAPSHOT (rec_title s)
               (snapshot_result_init s (rec_title s)) =
             (snapshot_result_init s (rec_title s))
               \<lparr>proposal_id := Some pid, res_method := Some ''manual_override'',
                score := Some 100, matched_title := Some mt\<rparr>"
    by blast
  from snapshot_table_ids[OF tab] have "pid \<noteq> []" .
  with assms(1,2) ov show ?thesis
    by (auto simp: snapshot_step_def Let_def)
qed

lemma snapshot_step_heuristic:
  assumes "\<not> is_stip_ltipp_protocol (rec_title s)"
    and "\<not> is_election (rec_title s)"
    and "\<not> override_hit MANUAL_OVERRIDES_SNAPSHOT (rec_title s)"
    and "find_best_title_match E (rec_title s) 55 = Inr title_match"
  shows "snapshot_step E acc s =
         (case snapshot_select E
                 ((snapshot_result_init s (rec_title s))
                    \<lparr>forum_links := extract_forum_links (rec_body s)\<rparr>)
                 title_match
                 (snapshot_link_scan E (extract_forum_links (rec_body s))
                    (None, 0, None)) of
            Inl e \<Rightarrow> Inl e
          | Inr result \<Rightarrow> snapshot_categorize acc result)"
proof -
  have "\<not> truthy (proposal_id (snapshot_result_init s (rec_title s)))"
    by (simp add: snapshot_result_init_def)
  with assms show ?thesis
    by (simp add: snapshot_step_def Let_def snapshot_override_miss)
qed

lemma link_inv_init: "link_inv (None, 0, None)"
  by (simp add: link_inv_def)

lemma snapshot_step_adds:
  "\<exists>acc' r. snapshot_step E acc s = Inr acc' \<and>
     mset (snapshot_all acc') = add_mset r (mset (snapshot_all acc)) \<and>
     res_id r = rec_id s \<and> candidate_iff_score r"
proof -
  let ?title = "rec_title s"
  let ?r0 = "snapshot_result_init s ?title"
  consider (stip) "is_stip_ltipp_protocol ?title"
    | (election) "\<not> is_stip_ltipp_protocol ?title" "is_election ?title"
    | (override) "\<not> is_stip_ltipp_protocol ?title" "\<not> is_election ?title"
        "override_hit MANUAL_OVERRIDES_SNAPSHOT ?title"
    | (heuristic) "\<not> is_stip_ltipp_protocol ?title" "\<not> is_election ?title"
        "\<not> override_hit MANUAL_OVERRIDES_SNAPSHOT ?title"
    by blast
  then show ?thesis
  proof cases
    case stip
    from snapshot_step_stip[OF stip] show ?thesis
      by (auto simp: snapshot_all_def snapshot_result_init_def candidate_iff_score_def)
  next
    case election
    from snapshot_step_election[OF election] show ?thesis
      by (auto simp: snapshot_all_def snapshot_result_init_def candidate_iff_score_def)
  next
    case override
    from snapshot_step_override[OF override, of E acc] show ?thesis
      by (auto simp: snapshot_all_def snapshot_result_init_def candidate_iff_score_def)
  next
    case heuristic
    from find_best_title_match_cases[of 55 E ?title]
    obtain tid tt ts where tm: "find_best_title_match E ?title 55 = Inr (tid, tt, ts)"
      by auto
    obtain lid ls lslug where lm:
      "snapshot_link_scan E (extract_forum_links (rec_body s)) (None, 0, None) =
       (lid, ls, lslug)"
      by (cases "snapshot_link_scan E (extract_forum_links (rec_body s))
                   (None, 0, None)")
    from snapshot_link_scan_inv[OF link_inv_init, of E] lm have inv: "link_inv (lid, ls, lslug)"
      by metis
    have un: "unresolved (?r0\<lparr>forum_links := extract_forum_links (rec_body s)\<rparr>)"
      by (simp add: unresolved_def snapshot_result_init_def)
    from snapshot_select_result[OF un inv, of E tid tt ts]
    obtain r where sel:
      "snapshot_select E (?r0\<lparr>forum_links := extract_forum_links (rec_body s)\<rparr>)
         (tid, tt, ts) (lid, ls, lslug) = Inr r"
      and rid: "res_id r = rec_id s" and cis: "candidate_iff_score r"
      by (auto simp: snapshot_result_init_def)
    from snapshot_step_heuristic[OF heuristic tm, of acc] lm sel
    have "snapshot_step E acc s = snapshot_categorize acc r" by simp
    with snapshot_categorize_adds[OF cis, of acc] rid show ?thesis by auto
  qed
qed

lemma snapshot_loop_adds:
  assumes "\<forall>r \<in> set (snapshot_all acc). candidate_iff_score r"
  shows "\<exists>res. snapshot_loop E acc recs = Inr res \<and>
           mset (map res_id (snapshot_all res)) =
             mset (map res_id (snapshot_all acc)) + mset (map rec_id recs) \<and>
           (\<forall>r \<in> set (snapshot_all res). candidate_iff_score r)"
  using assms
proof (induction recs arbitrary: acc)
  case Nil
  then show ?case by simp
next
  case (Cons s recs)
  from snapshot_step_adds[of E acc s]
  obtain acc' r where step: "snapshot_step E acc s = Inr acc'"
    and ms: "mset (snapshot_all acc') = add_mset r (mset (snapshot_all acc))"
    and rid: "res_id r = rec_id s" and cis: "candidate_iff_score r"
    by blast
  from ms have "set (snapshot_all acc') = insert r (set (snapshot_all acc))"
    by (metis set_mset_add_mset_insert set_mset_mset)
  with Cons.prems cis have inv: "\<forall>r \<in> set (snapshot_all acc'). candidate_iff_score r" by simp
  from ms have "mset (map res_id (snapshot_all acc')) =
                add_mset (res_id r) (mset (map res_id (snapshot_all acc)))"
    by (metis image_mset_add_mset mset_map)
  with Cons.IH[OF inv] step rid show ?case by auto
qed

section \<open>One iteration of the tally loop\<close>

lemma find_link_resolves:
  "find (link_resolves E) links = Some link \<Longrightarrow> link_resolves E link"
  by (auto simp: find_Some_iff)

lemma truthy_not_None: "truthy x \<Longrightarrow> x \<noteq> None"
  by (cases x) auto

lemma tally_link_scan_result:
  assumes "unresolved result"
  shows "res_id (tally_link_scan E links result) = res_id result \<and>
         (case find (link_resolves E) links of
            Some link \<Rightarrow>
              took_link (tally_link_scan E links result) (find_proposal_by_slug E (fst link)) \<and>
              truthy (proposal_id (tally_link_scan E links result))
          | None \<Rightarrow> tally_link_scan E links result = result)"
proof (cases "find (link_resolves E) links")
  case None
  then show ?thesis by (simp add: tally_link_scan_find)
next
  case (Some link)
  from find_link_resolves[OF Some] have "link_resolves E link" .
  with Some show ?thesis
    by (simp add: tally_link_scan_find took_link_def link_resolves_def)
qed

lemma tally_title_match_result:
  assumes "unresolved result" and "find_best_title_match E title 60 = Inr (tid, tt, ts)"
  shows "\<exists>r. tally_title_match E title result = Inr r \<and> res_id r = res_id result \<and>
           (if truthy tid then took_title r (tid, tt, ts) else r = result)"
  using assms by (simp add: tally_title_match_def took_title_def)

lemma tally_resolve_result:
  assumes "unresolved result"
    and "\<not> override_hit MANUAL_OVERRIDES_TALLY title"
    and "find_best_title_match E title 60 = Inr (tid, tt, ts)"
  shows "\<exists>r. tally_resolve E title description result = Inr r \<and> res_id r = res_id result \<and>
           (case find (link_resolves E) (extract_forum_links description) of
              Some link \<Rightarrow> took_link r (find_proposal_by_slug E (fst link)) \<and> truthy (proposal_id r)
            | None \<Rightarrow> if truthy tid then took_title r (tid, tt, ts) else r = result)"
proof -
  let ?links = "extract_forum_links description"
  have nt: "\<not> truthy (proposal_id result)" using assms(1) by (simp add: unresolved_def)
  have res: "tally_resolve E title description result =
             (if \<not> truthy (proposal_id (tally_link_scan E ?links result))
              then tally_title_match E title (tally_link_scan E ?links result)
              else Inr (tally_link_scan E ?links result))"
    using nt assms(2) by (simp add: tally_resolve_def Let_def tally_override_miss)
  show ?thesis
  proof (cases "find (link_resolves E) ?links")
    case None
    with tally_link_scan_result[OF assms(1), of E ?links]
    have "tally_link_scan E ?links result = result" by simp
    with res nt have "tally_resolve E title description result = tally_title_match E title result"
      by simp
    with tally_title_match_result[OF assms(1,3)] None show ?thesis by simp
  next
    case (Some link)
    with tally_link_scan_result[OF assms(1), of E ?links] res show ?thesis by simp
  qed
qed

lemma took_candidate_iff_score:
  "took_link r lm \<Longrightarrow> truthy (proposal_id r) \<Longrightarrow> candidate_iff_score r"
  "took_title r tm \<Longrightarrow> truthy (fst tm) \<Longrightarrow> candidate_iff_score r"
  "unresolved r \<Longrightarrow> candidate_iff_score r"
  by (auto simp: took_link_def took_title_def unresolved_def candidate_iff_score_def
        dest: truthy_not_None)

lemma tally_categorize_adds:
  assumes "candidate_iff_score r"
  shows "\<exists>acc' r'. tally_categorize acc r = Inr acc' \<and>
           mset (tally_all acc') = add_mset r' (mset (tally_all acc)) \<and>
           res_id r' = res_id r \<and> candidate_iff_score r'"
proof (cases "truthy (proposal_id r)")
  case True
  then have "proposal_id r \<noteq> None" by (rule truthy_not_None)
  with assms obtain sc where sc: "score r = Some sc" by (auto simp: candidate_iff_score_def)
  have low: "candidate_iff_score (r\<lparr>category := ''low_confidence''\<rparr>)"
    using assms by (simp add: candidate_iff_score_def)
  from True sc assms low show ?thesis
    by (auto simp: tally_categorize_def tally_all_def)
next
  case False
  with assms show ?thesis
    by (auto simp: tally_categorize_def tally_all_def)
qed

lemma tally_result_init_unresolved:
  "unresolved (tally_result_init t title)"
  "res_id (tally_result_init t title) = rec_id t"
  by (simp_all add: unresolved_def tally_result_init_def)

lemma tally_step_garbage:
  assumes "tally_garbage (rec_title t)"
  shows "tally_step E acc t =
         Inr (acc\<lparr>ta_unmatched :=
                     ta_unmatched acc @
                     [(tally_result_init t (rec_title t))
                        \<lparr>category := ''garbage''\<rparr>]\<rparr>)"
  using assms by (simp add: tally_step_def)

lemma tally_step_resolve:
  assumes "\<not> tally_garbage (rec_title t)"
  shows "tally_step E acc t =
         (case tally_resolve E (rec_title t) (rec_description t)
                 (tally_result_init t (rec_title t)) of
            Inl e \<Rightarrow> Inl e
          | Inr result \<Rightarrow> tally_categorize acc result)"
  using assms by (simp add: tally_step_def Let_def)

lemma tally_resolve_override:
  assumes "override_hit MANUAL_OVERRIDES_TALLY title"
  shows "\<exists>pid mt. pid \<noteq> [] \<and>
           tally_resolve E title description result =
           Inr (result\<lparr>proposal_id := Some pid, res_method := Some ''manual_override'',
                       score := Some 100, matched_title := Some mt\<rparr>)"
proof -
  from tally_override_hit[OF assms]
  obtain pid mt key where tab: "(key, pid) \<in> set MANUAL_OVERRIDES_TALLY"
    and ov: "tally_override E MANUAL_OVERRIDES_TALLY title result =
             result\<lparr>proposal_id := Some pid, res_method := Some ''manual_override'',
                    score := Some 100, matched_title := Some mt\<rparr>"
    by blast
  from tally_table_ids[OF tab] have "pid \<noteq> []" .
  with ov show ?thesis by (auto simp: tally_resolve_def Let_def)
qed

lemma tally_step_adds:
  "\<exists>acc' r. tally_step E acc t = Inr acc' \<and>
     mset (tally_all acc') = add_mset r (mset (tally_all acc)) \<and>
     res_id r = rec_id t \<and> candidate_iff_score r"
proof -
  let ?title = "rec_title t"
  let ?descr = "rec_description t"
  let ?r0 = "tally_result_init t ?title"
  consider (garbage) "tally_garbage ?title"
    | (override) "\<not> tally_garbage ?title" "override_hit MANUAL_OVERRIDES_TALLY ?title"
    | (heuristic) "\<not> tally_garbage ?title" "\<not> override_hit MANUAL_OVERRIDES_TALLY ?title"
    by blast
  then show ?thesis
  proof cases
    case garbage
    from tally_step_garbage[OF garbage] show ?thesis
      by (auto simp: tally_all_def tally_result_init_def candidate_iff_score_def)
  next
    case override
    from tally_resolve_override[OF override(2), of E ?descr ?r0]
    obtain pid mt where res: "tally_resolve E ?title ?descr ?r0 =
        Inr (?r0\<lparr>proposal_id := Some pid, res_method := Some ''manual_override'',
                  score := Some 100, matched_title := Some mt\<rparr>)"
      by blast
    have cis: "candidate_iff_score (?r0\<lparr>proposal_id := Some pid, res_method := Some ''manual_override'',
                  score := Some 100, matched_title := Some mt\<rparr>)"
      by (simp add: candidate_iff_score_def)
    from tally_categorize_adds[OF cis, of acc] tally_step_resolve[OF override(1), of E acc] res
    show ?thesis by (auto simp: tally_result_init_def)
  next
    case heuristic
    from find_best_title_match_cases[of 60 E ?title]
    obtain tid tt ts where tm: "find_best_title_match E ?title 60 = Inr (tid, tt, ts)"
      by auto
    from tally_resolve_result[OF tally_result_init_unresolved(1)[of t ?title] heuristic(2) tm,
        of ?descr]
    obtain r where res: "tally_resolve E ?title ?descr ?r0 = Inr r"
      and rid: "res_id r = rec_id t"
      and sel: "case find (link_resolves E) (extract_forum_links ?descr) of
                  Some link \<Rightarrow> took_link r (find_proposal_by_slug E (fst link)) \<and> truthy (proposal_id r)
                | None \<Rightarrow> if truthy tid then took_title r (tid, tt, ts) else r = ?r0"
      by (auto simp: tally_result_init_unresolved)
    have cis: "candidate_iff_score r"
    proof (cases "find (link_resolves E) (extract_forum_links ?descr)")
      case None
      with sel took_candidate_iff_score(2)[of r "(tid, tt, ts)"]
        took_candidate_iff_score(3)[OF tally_result_init_unresolved(1), of t ?title]
      show ?thesis by (auto split: if_splits)
    next
      case (Some link)
      with sel have "took_link r (find_proposal_by_slug E (fst link))" "truthy (proposal_id r)"
        by simp_all
      then show ?thesis by (rule took_candidate_iff_score(1))
    qed
    from tally_categorize_adds[OF cis, of acc] tally_step_resolve[OF heuristic(1), of E acc] res rid
    show ?thesis by auto
  qed
qed

lemma tally_loop_adds:
  assumes "\<forall>r \<in> set (tally_all acc). candidate_iff_score r"
  shows "\<exists>res. tally_loop E acc recs = Inr res \<and>
           mset (map res_id (tally_all res)) =
             mset (map res_id (tally_all acc)) + mset (map rec_id recs) \<and>
           (\<forall>r \<in> set (tally_all res). candidate_iff_score r)"
  using assms
proof (induction recs arbitrary: acc)
  case Nil
  then show ?case by simp
next
  case (Cons t recs)
  from tally_step_adds[of E acc t]
  obtain acc' r where step: "tally_step E acc t = Inr acc'"
    and ms: "mset (tally_all acc') = add_mset r (mset (tally_all acc))"
    and rid: "res_id r = rec_id t" and cis: "candidate_iff_score r"
    by blast
  from ms have "set (tally_all acc') = insert r (set (tally_all acc))"
    by (metis set_mset_add_mset_insert set_mset_mset)
  with Cons.prems cis have inv: "\<forall>r \<in> set (tally_all acc'). candidate_iff_score r" by simp
  from ms have "mset (map res_id (tally_all acc')) =
                add_mset (res_id r) (mset (map res_id (tally_all acc)))"
    by (metis image_mset_add_mset mset_map)
  with Cons.IH[OF inv] step rid show ?case by auto
qed

section \<open>The updated copies\<close>

lemma id_to_proposal_append:
  "id_to_proposal (rs @ rs') d = id_to_proposal rs' (id_to_proposal rs d)"
  by (induction rs arbitrary: d) auto

lemma id_to_proposal_lookup:
  "(k \<notin> res_id ` set rs \<longrightarrow> id_to_proposal rs d k = d k) \<and>
   (k \<in> res_id ` set rs \<longrightarrow>
      (\<exists>r \<in> set rs. res_id r = k \<and> id_to_proposal rs d k = Some (proposal_id r)))"
proof (induction rs arbitrary: d)
  case Nil
  then show ?case by simp
next
  case (Cons r rs)
  let ?d = "d(res_id r \<mapsto> proposal_id r)"
  have unfold: "id_to_proposal (r # rs) d k = id_to_proposal rs ?d k" by simp
  show ?case
  proof (cases "k \<in> res_id ` set rs")
    case True
    with Cons.IH[of ?d] obtain r' where "r' \<in> set rs" "res_id r' = k"
      "id_to_proposal rs ?d k = Some (proposal_id r')"
      by blast
    with unfold have "\<exists>r' \<in> set (r # rs). res_id r' = k \<and>
        id_to_proposal (r # rs) d k = Some (proposal_id r')"
      by auto
    with True show ?thesis by auto
  next
    case False
    with Cons.IH[of ?d] have rest: "id_to_proposal rs ?d k = ?d k" by blast
    show ?thesis
    proof (cases "k = res_id r")
      case True
      with rest unfold have "id_to_proposal (r # rs) d k = Some (proposal_id r)" by simp
      with True show ?thesis by auto
    next
      case neq: False
      with rest unfold have "id_to_proposal (r # rs) d k = d k" by simp
      with neq False show ?thesis by auto
    qed
  qed
qed

lemma update_record_frame:
  "rec_id (update_record d s) = rec_id s"
  "key \<noteq> ''proposal_id'' \<Longrightarrow> rec_fields (update_record d s) key = rec_fields s key"
  "rec_fields (update_record d s) ''proposal_id'' =
     (case d (rec_id s) of None \<Rightarrow> rec_fields s ''proposal_id'' | Some v \<Rightarrow> Some (to_jval v))"
  by (auto simp: update_record_def split: option.splits)

lemma updated_copy_of_map:
  assumes "\<forall>r \<in> set matched. truthy (proposal_id r)"
  shows "updated_copy_of stage matched
           (map (update_record (id_to_proposal matched Map.empty)) stage)"
proof -
  have "rec_fields (update_record (id_to_proposal matched Map.empty) s) ''proposal_id'' =
          rec_fields s ''proposal_id''"
    if "rec_id s \<notin> res_id ` set matched" for s
    using that id_to_proposal_lookup[of "rec_id s" matched Map.empty]
    by (simp add: update_record_frame)
  moreover have "\<exists>r \<in> set matched. res_id r = rec_id s \<and> truthy (proposal_id r) \<and>
          rec_fields (update_record (id_to_proposal matched Map.empty) s) ''proposal_id'' =
            Some (to_jval (proposal_id r))"
    if "rec_id s \<in> res_id ` set matched" for s
  proof -
    from that id_to_proposal_lookup[of "rec_id s" matched Map.empty]
    obtain r where "r \<in> set matched" "res_id r = rec_id s"
      "id_to_proposal matched Map.empty (rec_id s) = Some (proposal_id r)"
      by blast
    with assms show ?thesis by (auto simp: update_record_frame)
  qed
  ultimately show ?thesis
    by (simp add: updated_copy_of_def update_record_frame)
qed

lemma tally_step_matched:
  assumes "tally_step E acc t = Inr acc'"
    and "\<forall>r \<in> set (ta_matched acc). truthy (proposal_id r)"
  shows "\<forall>r \<in> set (ta_matched acc'). truthy (proposal_id r)"
  using assms
  by (auto simp: tally_step_def tally_categorize_def Let_def
        split: if_splits sum.splits option.splits)

lemma tally_loop_matched:
  assumes "tally_loop E acc recs = Inr res"
    and "\<forall>r \<in> set (ta_matched acc). truthy (proposal_id r)"
  shows "\<forall>r \<in> set (ta_matched res). truthy (proposal_id r)"
  using assms
proof (induction recs arbitrary: acc)
  case Nil
  then show ?case by simp
next
  case (Cons t recs)
  from Cons.prems(1) obtain acc' where step: "tally_step E acc t = Inr acc'"
    and rest: "tally_loop E acc' recs = Inr res"
    by (auto split: sum.splits)
  from Cons.IH[OF rest tally_step_matched[OF step Cons.prems(2)]] show ?case .
qed

lemma snapshot_step_matched:
  assumes "snapshot_step E acc s = Inr acc'"
    and "\<forall>r \<in> set (sn_matched_by_link acc @ sn_matched_by_title acc). truthy (proposal_id r)"
  shows "\<forall>r \<in> set (sn_matched_by_link acc' @ sn_matched_by_title acc'). truthy (proposal_id r)"
  using assms
  by (auto simp: snapshot_step_def snapshot_categorize_def Let_def
        split: if_splits sum.splits option.splits)

lemma snapshot_loop_matched:
  assumes "snapshot_loop E acc recs = Inr res"
    and "\<forall>r \<in> set (sn_matched_by_link acc @ sn_matched_by_title acc). truthy (proposal_id r)"
  shows "\<forall>r \<in> set (sn_matched_by_link res @ sn_matched_by_title res). truthy (proposal_id r)"
  using assms
proof (induction recs arbitrary: acc)
  case Nil
  then show ?case by simp
next
  case (Cons s recs)
  from Cons.prems(1) obtain acc' where step: "snapshot_step E acc s = Inr acc'"
    and rest: "snapshot_loop E acc' recs = Inr res"
    by (auto split: sum.splits)
  from Cons.IH[OF rest snapshot_step_matched[OF step Cons.prems(2)]] show ?case .
qed

section \<open>Source A: links before the title\<close>

text \<open>
  Claim C1, as the program has it. For every tally record that reaches the heuristic step
  (not garbage, no override hit): the first extracted link whose slug-match has a candidate
  with a score of at least 70 is used whenever there is one, whether or not a title-match
  exists; otherwise the title-match is used when there is one, and its score is at least 60;
  if neither exists, the result has no candidate.
\<close>

theorem tally_selection_order:
  assumes "\<not> tally_garbage (rec_title t)"
    and "\<not> override_hit MANUAL_OVERRIDES_TALLY (rec_title t)"
    and "find_best_title_match E (rec_title t) 60 = Inr (tid, tt, ts)"
  shows "\<exists>r. tally_step E acc t = tally_categorize acc r \<and> res_id r = rec_id t \<and>
           (case find (link_resolves E) (extract_forum_links (rec_description t)) of
              Some link \<Rightarrow> took_link r (find_proposal_by_slug E (fst link))
            | None \<Rightarrow> if truthy tid then took_title r (tid, tt, ts) \<and> 60 \<le> ts
                      else unresolved r)"
proof -
  let ?r0 = "tally_result_init t (rec_title t)"
  have un: "unresolved ?r0" by (rule tally_result_init_unresolved)
  from find_best_title_match_cases[of 60 E "rec_title t"] assms(3)
  have min: "truthy tid \<Longrightarrow> 60 \<le> ts" by auto
  from tally_resolve_result[OF un assms(2,3), of "rec_description t"]
  obtain r where res: "tally_resolve E (rec_title t) (rec_description t) ?r0 = Inr r"
    and rid: "res_id r = rec_id t"
    and sel: "case find (link_resolves E) (extract_forum_links (rec_description t)) of
                Some link \<Rightarrow> took_link r (find_proposal_by_slug E (fst link)) \<and> truthy (proposal_id r)
              | None \<Rightarrow> if truthy tid then took_title r (tid, tt, ts) else r = ?r0"
    by (auto simp: tally_result_init_unresolved)
  from tally_step_resolve[OF assms(1), of E acc] res
  have step: "tally_step E acc t = tally_categorize acc r" by simp
  from sel un min
  have "case find (link_resolves E) (extract_forum_links (rec_description t)) of
          Some link \<Rightarrow> took_link r (find_proposal_by_slug E (fst link))
        | None \<Rightarrow> if truthy tid then took_title r (tid, tt, ts) \<and> 60 \<le> ts else unresolved r"
    by (auto split: option.splits if_splits)
  with step rid show ?thesis by blast
qed

text \<open>A record whose title is the title of one entry and whose link leads to another.\<close>

theorem tally_selection_order_witness:
  "\<not> tally_garbage (rec_title (sample_record ''T1'' ''gamma''
        ''forum.arbitrum.foundation/t/alpha-beta'')) \<and>
   \<not> override_hit MANUAL_OVERRIDES_TALLY (rec_title (sample_record ''T1'' ''gamma''
        ''forum.arbitrum.foundation/t/alpha-beta'')) \<and>
   find_best_title_match (sample_env sample_proposals) (rec_title (sample_record ''T1'' ''gamma''
        ''forum.arbitrum.foundation/t/alpha-beta'')) 60 = Inr (Some ''P2'', Some ''gamma'', 100) \<and>
   (\<exists>r. tally_step (sample_env sample_proposals) tally_results_init
           (sample_record ''T1'' ''gamma'' ''forum.arbitrum.foundation/t/alpha-beta'') =
         tally_categorize tally_results_init r \<and>
         took_link r (Some ''P1'', 100))"
proof -
  let ?t = "sample_record ''T1'' ''gamma'' ''forum.arbitrum.foundation/t/alpha-beta''"
  let ?E = "sample_env sample_proposals"
  have h1: "\<not> tally_garbage (rec_title ?t)" by code_simp
  have h2: "\<not> override_hit MANUAL_OVERRIDES_TALLY (rec_title ?t)" by code_simp
  have h3: "find_best_title_match ?E (rec_title ?t) 60 = Inr (Some ''P2'', Some ''gamma'', 100)"
    by code_simp
  have links: "find (link_resolves ?E) (extract_forum_links (rec_description ?t)) =
               Some (''alpha-beta'', None)"
    by code_simp
  have hit: "find_proposal_by_slug ?E ''alpha-beta'' = (Some ''P1'', 100)" by code_simp
  from tally_selection_order[OF h1 h2 h3, of tally_results_init] links hit
  have "\<exists>r. tally_step ?E tally_results_init ?t = tally_categorize tally_results_init r \<and>
             took_link r (Some ''P1'', 100)"
    by auto
  with h1 h2 h3 show ?thesis by blast
qed

text \<open>
  Claim C1 as stated uses a link-match only if no title-match exists. The title
  \<^verbatim>\<open>gamma\<close> has the title-match \<open>P2\<close> with score 100, and the link resolves to \<open>P1\<close>:
  the record is matched to \<open>P1\<close> by its link.
\<close>

theorem tally_selection_order_counterexample:
  "find_best_title_match (sample_env sample_proposals) ''gamma'' 60 =
     Inr (Some ''P2'', Some ''gamma'', 100) \<and>
   find_proposal_by_slug (sample_env sample_proposals) ''alpha-beta'' = (Some ''P1'', 100) \<and>
   tally_step (sample_env sample_proposals) tally_results_init
     (sample_record ''T1'' ''gamma'' ''forum.arbitrum.foundation/t/alpha-beta'') =
   Inr \<lparr>ta_matched =
          [\<lparr>res_id = ''T1'', res_title = ''gamma'', res_author = JNull,
            proposal_id = Some ''P1'', matched_title = Some ''Alpha Beta'',
            score = Some 100, res_method = Some ''forum_link_slug'', category = ''standard''\<rparr>],
        ta_low_confidence = [], ta_unmatched = []\<rparr>"
  by code_simp

section \<open>The link candidate\<close>

text \<open>
  Claim C2, as the program has it. For a snapshot record, the links with a generic slug
  are passed over; the score kept is at least the score of every remaining link, and the
  candidate, score and slug kept are those of one remaining link, or nothing is kept when
  no remaining link scores above 0. For a tally record none of whose links is generic, the
  link candidate is the first link, in the order of extraction, whose slug-match has a
  candidate with a score of at least 70, and not the highest-scoring one.
\<close>

theorem link_candidate:
  "snapshot_link_scan E links (None, 0, None) =
     snapshot_link_scan E (filter (\<lambda>link. \<not> is_generic_link (fst link)) links) (None, 0, None) \<and>
   (\<forall>link \<in> set links. \<not> is_generic_link (fst link) \<longrightarrow>
      snd (find_proposal_by_slug E (fst link)) \<le> fst (snd (snapshot_link_scan E links (None, 0, None)))) \<and>
   (snapshot_link_scan E links (None, 0, None) = (None, 0, None) \<or>
    (\<exists>link \<in> set links. \<not> is_generic_link (fst link) \<and>
       snapshot_link_scan E links (None, 0, None) =
         (fst (find_proposal_by_slug E (fst link)), snd (find_proposal_by_slug E (fst link)),
          Some (fst link)))) \<and>
   (unresolved result \<and> (\<forall>link \<in> set links. \<not> is_generic_link (fst link)) \<longrightarrow>
      (case find (link_resolves E) links of
         None \<Rightarrow> tally_link_scan E links result = result
       | Some link \<Rightarrow> took_link (tally_link_scan E links result) (find_proposal_by_slug E (fst link))))"
proof (intro conjI ballI impI)
  show "snapshot_link_scan E links (None, 0, None) =
     snapshot_link_scan E (filter (\<lambda>link. \<not> is_generic_link (fst link)) links) (None, 0, None)"
    by (rule snapshot_link_scan_skip)
next
  fix link
  assume "link \<in> set links" "\<not> is_generic_link (fst link)"
  moreover obtain bm bs bsl where "snapshot_link_scan E links (None, 0, None) = (bm, bs, bsl)"
    by (cases "snapshot_link_scan E links (None, 0, None)")
  ultimately show "snd (find_proposal_by_slug E (fst link))
                   \<le> fst (snd (snapshot_link_scan E links (None, 0, None)))"
    using snapshot_link_scan_upper[of E links None 0 None bm bs bsl link] by simp
next
  show "snapshot_link_scan E links (None, 0, None) = (None, 0, None) \<or>
    (\<exists>link \<in> set links. \<not> is_generic_link (fst link) \<and>
       snapshot_link_scan E links (None, 0, None) =
         (fst (find_proposal_by_slug E (fst link)), snd (find_proposal_by_slug E (fst link)),
          Some (fst link)))"
    by (rule snapshot_link_scan_attained)
next
  assume "unresolved result \<and> (\<forall>link \<in> set links. \<not> is_generic_link (fst link))"
  then have un: "unresolved result" by simp
  from tally_link_scan_result[OF un, of E links]
  show "case find (link_resolves E) links of
          None \<Rightarrow> tally_link_scan E links result = result
        | Some link \<Rightarrow> took_link (tally_link_scan E links result) (find_proposal_by_slug E (fst link))"
    by (auto split: option.splits)
qed

text \<open>Three links, the first of them generic, and the two others in a tally record.\<close>

theorem link_candidate_witness:
  "snapshot_link_scan (sample_env sample_proposals)
     [(''stip'', None), (''alpha-betx'', None), (''gamma'', None)] (None, 0, None) =
     (Some ''P2'', 100, Some ''gamma'') \<and>
   is_generic_link ''stip'' \<and>
   find_proposal_by_slug (sample_env sample_proposals) ''stip'' = (Some ''P3'', 100) \<and>
   unresolved (tally_result_init (sample_record ''T1'' ''zzz'' []) ''zzz'') \<and>
   \<not> is_generic_link ''alpha-betx'' \<and> \<not> is_generic_link ''gamma'' \<and>
   took_link
     (tally_link_scan (sample_env sample_proposals) [(''alpha-betx'', None), (''gamma'', None)]
        (tally_result_init (sample_record ''T1'' ''zzz'' []) ''zzz''))
     (Some ''P1'', 90)"
proof -
  let ?E = "sample_env sample_proposals"
  let ?links = "[(''alpha-betx'', None), (''gamma'', None)] :: (string \<times> string option) list"
  let ?r0 = "tally_result_init (sample_record ''T1'' ''zzz'' []) ''zzz''"
  have kept: "filter (\<lambda>link. \<not> is_generic_link (fst link))
                [(''stip'', None), (''alpha-betx'', None), (''gamma'', None)] = ?links"
    by code_simp
  have scan: "snapshot_link_scan ?E ?links (None, 0, None) = (Some ''P2'', 100, Some ''gamma'')"
    by code_simp
  have g: "is_generic_link ''stip''" by code_simp
  have s: "find_proposal_by_slug ?E ''stip'' = (Some ''P3'', 100)" by code_simp
  have un: "unresolved ?r0" by (rule tally_result_init_unresolved)
  have ng: "\<forall>link \<in> set ?links. \<not> is_generic_link (fst link)" by code_simp
  have f: "find (link_resolves ?E) ?links = Some (''alpha-betx'', None)" by code_simp
  have fp: "find_proposal_by_slug ?E ''alpha-betx'' = (Some ''P1'', 90)" by code_simp
  from link_candidate[of ?E "[(''stip'', None), (''alpha-betx'', None), (''gamma'', None)]" ?r0]
    kept scan
  have c1: "snapshot_link_scan ?E [(''stip'', None), (''alpha-betx'', None), (''gamma'', None)]
              (None, 0, None) = (Some ''P2'', 100, Some ''gamma'')"
    by simp
  from link_candidate[of ?E ?links ?r0] un ng f fp
  have c2: "took_link (tally_link_scan ?E ?links ?r0) (Some ''P1'', 90)" by simp
  have n1: "\<not> is_generic_link ''alpha-betx''" and n2: "\<not> is_generic_link ''gamma''"
    using ng by simp_all
  show ?thesis
    by (intro conjI) (rule c1 g s un n1 n2 c2)+
qed

text \<open>
  Claim C2 as stated fails for tally records. The generic slug \<^verbatim>\<open>stip\<close> is not passed
  over there: the record is matched through it. And of two links with scores 90 and 100
  the first one is kept, not the better one.
\<close>

theorem link_candidate_counterexample:
  "is_generic_link ''stip'' \<and>
   tally_step (sample_env sample_proposals) tally_results_init
     (sample_record ''T1'' ''delta'' ''forum.arbitrum.foundation/t/stip'') =
   Inr \<lparr>ta_matched =
          [\<lparr>res_id = ''T1'', res_title = ''delta'', res_author = JNull,
            proposal_id = Some ''P3'', matched_title = Some ''STIP'',
            score = Some 100, res_method = Some ''forum_link_slug'', category = ''standard''\<rparr>],
        ta_low_confidence = [], ta_unmatched = []\<rparr> \<and>
   extract_forum_links
     ''forum.arbitrum.foundation/t/alpha-betx forum.arbitrum.foundation/t/gamma'' =
     [(''alpha-betx'', None), (''gamma'', None)] \<and>
   find_proposal_by_slug (sample_env sample_proposals) ''alpha-betx'' = (Some ''P1'', 90) \<and>
   find_proposal_by_slug (sample_env sample_proposals) ''gamma'' = (Some ''P2'', 100) \<and>
   tally_step (sample_env sample_proposals) tally_results_init
     (sample_record ''T2'' ''delta''
        ''forum.arbitrum.foundation/t/alpha-betx forum.arbitrum.foundation/t/gamma'') =
   Inr \<lparr>ta_matched =
          [\<lparr>res_id = ''T2'', res_title = ''delta'', res_author = JNull,
            proposal_id = Some ''P1'', matched_title = Some ''Alpha Beta'',
            score = Some 90, res_method = Some ''forum_link_slug'', category = ''standard''\<rparr>],
        ta_low_confidence = [], ta_unmatched = []\<rparr>"
  by code_simp

section \<open>Source B: the order of the selection\<close>



section \<open>One result for every record\<close>

text \<open>
  Claim C4. For every list of snapshot records and every list of tally records both runs
  end without an error, the results in the buckets are, counted by record id, exactly the
  input records (one result for every record), and in every result a candidate is set if
  and only if a score is set.
\<close>

theorem one_result_per_record:
  "(\<exists>res. snapshot_loop E snapshot_results_init snapshot_stage = Inr res \<and>
      mset (map res_id (snapshot_all res)) = mset (map rec_id snapshot_stage) \<and>
      (\<forall>r \<in> set (snapshot_all res). proposal_id r \<noteq> None \<longleftrightarrow> score r \<noteq> None)) \<and>
   (\<exists>res. tally_loop E tally_results_init tally_stage = Inr res \<and>
      mset (map res_id (tally_all res)) = mset (map rec_id tally_stage) \<and>
      (\<forall>r \<in> set (tally_all res). proposal_id r \<noteq> None \<longleftrightarrow> score r \<noteq> None))"
proof
  have "\<forall>r \<in> set (snapshot_all snapshot_results_init). candidate_iff_score r"
    by (simp add: snapshot_all_def snapshot_results_init_def)
  from snapshot_loop_adds[OF this, of E snapshot_stage]
  show "\<exists>res. snapshot_loop E snapshot_results_init snapshot_stage = Inr res \<and>
      mset (map res_id (snapshot_all res)) = mset (map rec_id snapshot_stage) \<and>
      (\<forall>r \<in> set (snapshot_all res). proposal_id r \<noteq> None \<longleftrightarrow> score r \<noteq> None)"
    by (auto simp: snapshot_all_def snapshot_results_init_def candidate_iff_score_def)
next
  have "\<forall>r \<in> set (tally_all tally_results_init). candidate_iff_score r"
    by (simp add: tally_all_def tally_results_init_def)
  from tally_loop_adds[OF this, of E tally_stage]
  show "\<exists>res. tally_loop E tally_results_init tally_stage = Inr res \<and>
      mset (map res_id (tally_all res)) = mset (map rec_id tally_stage) \<and>
      (\<forall>r \<in> set (tally_all res). proposal_id r \<noteq> None \<longleftrightarrow> score r \<noteq> None)"
    by (auto simp: tally_all_def tally_results_init_def candidate_iff_score_def)
qed

text \<open>The two sample stages: three records each, three results each.\<close>

theorem one_result_per_record_witness:
  "(\<exists>res. snapshot_loop (sample_env sample_proposals) snapshot_results_init sample_snapshot_stage =
            Inr res \<and>
      map res_id (snapshot_all res) = [''S1'', ''S2'', ''S3''] \<and>
      mset (map res_id (snapshot_all res)) = mset (map rec_id sample_snapshot_stage) \<and>
      (\<forall>r \<in> set (snapshot_all res). proposal_id r \<noteq> None \<longleftrightarrow> score r \<noteq> None)) \<and>
   (\<exists>res. tally_loop (sample_env sample_proposals) tally_results_init sample_tally_stage =
            Inr res \<and>
      map res_id (tally_all res) = [''T1'', ''T2'', ''T3''] \<and>
      mset (map res_id (tally_all res)) = mset (map rec_id sample_tally_stage) \<and>
      (\<forall>r \<in> set (tally_all res). proposal_id r \<noteq> None \<longleftrightarrow> score r \<noteq> None))"
proof -
  let ?E = "sample_env sample_proposals"
  have s: "case snapshot_loop ?E snapshot_results_init sample_snapshot_stage of
             Inl e \<Rightarrow> False
           | Inr res \<Rightarrow> map res_id (snapshot_all res) = [''S1'', ''S2'', ''S3'']"
    by code_simp
  have t: "case tally_loop ?E tally_results_init sample_tally_stage of
             Inl e \<Rightarrow> False
           | Inr res \<Rightarrow> map res_id (tally_all res) = [''T1'', ''T2'', ''T3'']"
    by code_simp
  from one_result_per_record[of ?E sample_snapshot_stage sample_tally_stage] s t
  show ?thesis by (auto split: sum.splits)
qed

section \<open>Elections\<close>

text \<open>
  Claim C5, as the program has it. For every snapshot record whose title matches an
  election pattern and no protocol-grant pattern (those are tested first), the
  classification is terminal: the result goes to the election bucket with category
  \<^verbatim>\<open>election\<close> and without a candidate, whatever the override table and the body say.
\<close>

theorem election_terminal:
  assumes "is_election (rec_title s)"
    and "\<not> is_stip_ltipp_protocol (rec_title s)"
  shows "\<exists>r. snapshot_step E acc s = Inr (acc\<lparr>sn_elections := sn_elections acc @ [r]\<rparr>) \<and>
           res_id r = rec_id s \<and> category r = ''election'' \<and> unresolved r"
  using snapshot_step_election[OF assms(2,1), of E acc]
  by (auto simp: snapshot_result_init_def unresolved_def)

text \<open>A title that holds both an override key and an election pattern.\<close>

theorem election_terminal_witness:
  "is_election (rec_title (sample_record ''S1''
        ''Safeguarding Software Developers Council Election''
        ''forum.arbitrum.foundation/t/gamma'')) \<and>
   \<not> is_stip_ltipp_protocol (rec_title (sample_record ''S1''
        ''Safeguarding Software Developers Council Election''
        ''forum.arbitrum.foundation/t/gamma'')) \<and>
   override_hit MANUAL_OVERRIDES_SNAPSHOT (rec_title (sample_record ''S1''
        ''Safeguarding Software Developers Council Election''
        ''forum.arbitrum.foundation/t/gamma'')) \<and>
   (\<exists>r. snapshot_step (sample_env sample_proposals) snapshot_results_init
           (sample_record ''S1'' ''Safeguarding Software Developers Council Election''
              ''forum.arbitrum.foundation/t/gamma'') =
         Inr (snapshot_results_init\<lparr>sn_elections := sn_elections snapshot_results_init @ [r]\<rparr>) \<and>
         category r = ''election'' \<and> unresolved r)"
proof -
  let ?s = "sample_record ''S1'' ''Safeguarding Software Developers Council Election''
              ''forum.arbitrum.foundation/t/gamma''"
  have h1: "is_election (rec_title ?s)" by code_simp
  have h2: "\<not> is_stip_ltipp_protocol (rec_title ?s)" by code_simp
  have h3: "override_hit MANUAL_OVERRIDES_SNAPSHOT (rec_title ?s)" by code_simp
  from election_terminal[OF h1 h2, of "sample_env sample_proposals" snapshot_results_init]
    h1 h2 h3
  show ?thesis by blast
qed

text \<open>
  Claim C5 as stated covers every record of either source. A snapshot title that also ends
  in a protocol-grant pattern goes to the protocol-grant bucket; and the tally loop has no
  election test: a tally record with an election title is matched by its title.
\<close>

theorem election_terminal_counterexample:
  "is_election ''Security Council Election STIP Addendum'' \<and>
   snapshot_step (sample_env sample_proposals) snapshot_results_init
     (sample_record ''S1'' ''Security Council Election STIP Addendum'' []) =
   Inr \<lparr>sn_matched_by_link = [], sn_matched_by_title = [], sn_low_confidence = [],
        sn_stip_ltipp =
          [\<lparr>res_id = ''S1'', res_title = ''Security Council Election STIP Addendum'',
            res_author = JNull, proposal_id = None, matched_title = None, score = None,
            res_method = None, category = ''stip_ltipp_protocol'', forum_links = []\<rparr>],
        sn_elections = [], sn_unmatched = []\<rparr> \<and>
   is_election ''Security Council Election'' \<and>
   tally_step (sample_env [\<lparr>p_id = ''P7'', p_title = ''Security Council Election''\<rparr>])
     tally_results_init (sample_record ''T1'' ''Security Council Election'' []) =
   Inr \<lparr>ta_matched =
          [\<lparr>res_id = ''T1'', res_title = ''Security Council Election'', res_author = JNull,
            proposal_id = Some ''P7'', matched_title = Some ''Security Council Election'',
            score = Some 100, res_method = Some ''title_fuzzy'', category = ''standard''\<rparr>],
        ta_low_confidence = [], ta_unmatched = []\<rparr>"
  by code_simp

section \<open>The updated copies of the input\<close>

text \<open>
  Claim C6, as the program has it. For each source, the output is a copy of the input with
  the same records in the same order and every field but \<^verbatim>\<open>proposal_id\<close> unchanged.
  \<^verbatim>\<open>proposal_id\<close> is set to the candidate for the records whose id belongs to a result in
  a high-confidence bucket (\<^verbatim>\<open>matched\<close> for tally, \<^verbatim>\<open>matched_by_link\<close> and
  \<^verbatim>\<open>matched_by_title\<close> for snapshot); in every other record the field is as it was in the
  input, present or not.
\<close>

theorem updated_copy:
  "(run_tally E tally_stage = Inr (tres, tout) \<longrightarrow>
      updated_copy_of tally_stage (ta_matched tres) tout) \<and>
   (run_snapshot E snapshot_stage = Inr (sres, sout) \<longrightarrow>
      updated_copy_of snapshot_stage (sn_matched_by_link sres @ sn_matched_by_title sres) sout)"
proof (intro conjI impI)
  assume "run_tally E tally_stage = Inr (tres, tout)"
  then have loop: "tally_loop E tally_results_init tally_stage = Inr tres"
    and out: "tout = tally_stage_updated tres tally_stage"
    by (auto simp: run_tally_def split: sum.splits)
  have "\<forall>r \<in> set (ta_matched tally_results_init). truthy (proposal_id r)"
    by (simp add: tally_results_init_def)
  from tally_loop_matched[OF loop this]
  show "updated_copy_of tally_stage (ta_matched tres) tout"
    unfolding out tally_stage_updated_def by (rule updated_copy_of_map)
next
  assume "run_snapshot E snapshot_stage = Inr (sres, sout)"
  then have loop: "snapshot_loop E snapshot_results_init snapshot_stage = Inr sres"
    and out: "sout = snapshot_stage_updated sres snapshot_stage"
    by (auto simp: run_snapshot_def split: sum.splits)
  have "\<forall>r \<in> set (sn_matched_by_link snapshot_results_init @
                     sn_matched_by_title snapshot_results_init). truthy (proposal_id r)"
    by (simp add: snapshot_results_init_def)
  from snapshot_loop_matched[OF loop this]
  have "updated_copy_of snapshot_stage (sn_matched_by_link sres @ sn_matched_by_title sres)
          (map (update_record
                  (id_to_proposal (sn_matched_by_link sres @ sn_matched_by_title sres) Map.empty))
             snapshot_stage)"
    by (rule updated_copy_of_map)
  then show "updated_copy_of snapshot_stage (sn_matched_by_link sres @ sn_matched_by_title sres) sout"
    by (simp add: out snapshot_stage_updated_def id_to_proposal_append)
qed

text \<open>The two sample stages: the first record of each is matched.\<close>

theorem updated_copy_witness:
  "\<exists>tres sres.
     run_tally (sample_env sample_proposals) sample_tally_stage =
       Inr (tres, tally_stage_updated tres sample_tally_stage) \<and>
     run_snapshot (sample_env sample_proposals) sample_snapshot_stage =
       Inr (sres, snapshot_stage_updated sres sample_snapshot_stage) \<and>
     updated_copy_of sample_tally_stage (ta_matched tres)
       (tally_stage_updated tres sample_tally_stage) \<and>
     updated_copy_of sample_snapshot_stage (sn_matched_by_link sres @ sn_matched_by_title sres)
       (snapshot_stage_updated sres sample_snapshot_stage) \<and>
     map res_id (ta_matched tres) = [''T1''] \<and>
     map res_id (sn_matched_by_link sres @ sn_matched_by_title sres) = [''S1'']"
proof -
  let ?E = "sample_env sample_proposals"
  have s: "case snapshot_loop ?E snapshot_results_init sample_snapshot_stage of
             Inl e \<Rightarrow> False
           | Inr res \<Rightarrow> map res_id (sn_matched_by_link res @ sn_matched_by_title res) = [''S1'']"
    by code_simp
  have t: "case tally_loop ?E tally_results_init sample_tally_stage of
             Inl e \<Rightarrow> False
           | Inr res \<Rightarrow> map res_id (ta_matched res) = [''T1'']"
    by code_simp
  from s obtain sres where
    sl: "snapshot_loop ?E snapshot_results_init sample_snapshot_stage = Inr sres"
    and sm: "map res_id (sn_matched_by_link sres @ sn_matched_by_title sres) = [''S1'']"
    by (auto split: sum.splits)
  from t obtain tres where
    tl: "tally_loop ?E tally_results_init sample_tally_stage = Inr tres"
    and tm: "map res_id (ta_matched tres) = [''T1'']"
    by (auto split: sum.splits)
  from tl have rt: "run_tally ?E sample_tally_stage =
                    Inr (tres, tally_stage_updated tres sample_tally_stage)"
    by (simp add: run_tally_def)
  from sl have rs: "run_snapshot ?E sample_snapshot_stage =
                    Inr (sres, snapshot_stage_updated sres sample_snapshot_stage)"
    by (simp add: run_snapshot_def)
  from updated_copy[of ?E sample_tally_stage tres "tally_stage_updated tres sample_tally_stage"
      sample_snapshot_stage sres "snapshot_stage_updated sres sample_snapshot_stage"] rt rs
  have ct: "updated_copy_of sample_tally_stage (ta_matched tres)
              (tally_stage_updated tres sample_tally_stage)"
    and cs: "updated_copy_of sample_snapshot_stage
               (sn_matched_by_link sres @ sn_matched_by_title sres)
               (snapshot_stage_updated sres sample_snapshot_stage)"
    by blast+
  show ?thesis
    by (rule exI[of _ tres], rule exI[of _ sres], intro conjI) (rule rt rs ct cs tm sm)+
qed

text \<open>
  Claim C6 as stated gives every output record a \<^verbatim>\<open>proposal_id\<close> that is null unless the
  record was resolved. Neither record of this input is resolved; in the output the first
  one has no \<^verbatim>\<open>proposal_id\<close> field and the second one keeps the value it came with.
\<close>

theorem updated_copy_counterexample:
  "tally_loop (sample_env sample_proposals) tally_results_init sample_stale_stage =
     Inr \<lparr>ta_matched = [], ta_low_confidence = [],
          ta_unmatched =
            [\<lparr>res_id = ''T1'', res_title = [], res_author = JNull, proposal_id = None,
              matched_title = None, score = None, res_method = None, category = ''garbage''\<rparr>,
             \<lparr>res_id = ''T2'', res_title = [], res_author = JNull, proposal_id = None,
              matched_title = None, score = None, res_method = None, category = ''garbage''\<rparr>]\<rparr> \<and>
   rec_fields
     (tally_stage_updated
        \<lparr>ta_matched = [], ta_low_confidence = [],
         ta_unmatched =
           [\<lparr>res_id = ''T1'', res_title = [], res_author = JNull, proposal_id = None,
             matched_title = None, score = None, res_method = None, category = ''garbage''\<rparr>,
            \<lparr>res_id = ''T2'', res_title = [], res_author = JNull, proposal_id = None,
             matched_title = None, score = None, res_method = None, category = ''garbage''\<rparr>]\<rparr>
        sample_stale_stage ! 0) ''proposal_id'' = None \<and>
   rec_fields
     (tally_stage_updated
        \<lparr>ta_matched = [], ta_low_confidence = [],
         ta_unmatched =
           [\<lparr>res_id = ''T1'', res_title = [], res_author = JNull, proposal_id = None,
             matched_title = None, score = None, res_method = None, category = ''garbage''\<rparr>,
            \<lparr>res_id = ''T2'', res_title = [], res_author = JNull, proposal_id = None,
             matched_title = None, score = None, res_method = None, category = ''garbage''\<rparr>]\<rparr>
        sample_stale_stage ! 1) ''proposal_id'' = Some (JStr ''old'')"
  by code_simp

section \<open>Garbage titles\<close>

text \<open>
  Claim C7 at the title \<^verbatim>\<open>ab\<close> and at a block-listed title with a leading blank. Both
  are garbage for \<^verbatim>\<open>is_skip_tally\<close> (trimmed title in the block-list, or shorter than 3),
  as the claim says; the test of the tally loop has neither the trimming nor the length
  rule, and the record titled \<^verbatim>\<open>ab\<close> is matched by its title.
\<close>

theorem tally_garbage_short_title:
  "is_skip_tally ''ab'' \<and> \<not> tally_garbage ''ab'' \<and>
   is_skip_tally '' AIP 4'' \<and> \<not> tally_garbage '' AIP 4'' \<and>
   tally_step (sample_env [\<lparr>p_id = ''P1'', p_title = ''ab''\<rparr>]) tally_results_init
     (sample_record ''T1'' ''ab'' []) =
   Inr \<lparr>ta_matched =
          [\<lparr>res_id = ''T1'', res_title = ''ab'', res_author = JNull,
            proposal_id = Some ''P1'', matched_title = Some ''ab'',
            score = Some 100, res_method = Some ''title_fuzzy'', category = ''standard''\<rparr>],
        ta_low_confidence = [], ta_unmatched = []\<rparr>"
  by code_simp

section \<open>Slug Matcher: the result of a lookup\<close>




section \<open>Title Matcher: the combined score\<close>




section \<open>Manual overrides of snapshot records\<close>

text \<open>
  Claim C10. For every snapshot record resolved by a manual override (no special category,
  an override key occurs in the title), the result, with method \<^verbatim>\<open>manual_override\<close> and
  score 100, is appended to the bucket \<^verbatim>\<open>matched_by_title\<close>; every other bucket is
  left as it was.
\<close>

theorem override_bucket:
  assumes "\<not> is_stip_ltipp_protocol (rec_title s)"
    and "\<not> is_election (rec_title s)"
    and "override_hit MANUAL_OVERRIDES_SNAPSHOT (rec_title s)"
  shows "\<exists>r. snapshot_step E acc s =
               Inr (acc\<lparr>sn_matched_by_title := sn_matched_by_title acc @ [r]\<rparr>) \<and>
           res_id r = rec_id s \<and> truthy (proposal_id r) \<and>
           res_method r = Some ''manual_override'' \<and> score r = Some 100"
  using snapshot_step_override[OF assms, of E acc]
  by (auto simp: snapshot_result_init_def)

text \<open>A record whose title is the override key.\<close>

theorem override_bucket_witness:
  "\<not> is_stip_ltipp_protocol (rec_title (sample_record ''S1'' ''Safeguarding Software Developers''
        ''forum.arbitrum.foundation/t/gamma'')) \<and>
   \<not> is_election (rec_title (sample_record ''S1'' ''Safeguarding Software Developers''
        ''forum.arbitrum.foundation/t/gamma'')) \<and>
   override_hit MANUAL_OVERRIDES_SNAPSHOT (rec_title (sample_record ''S1''
        ''Safeguarding Software Developers'' ''forum.arbitrum.foundation/t/gamma'')) \<and>
   (\<exists>r. snapshot_step (sample_env sample_proposals) snapshot_results_init
           (sample_record ''S1'' ''Safeguarding Software Developers''
              ''forum.arbitrum.foundation/t/gamma'') =
         Inr (snapshot_results_init\<lparr>sn_matched_by_title :=
                sn_matched_by_title snapshot_results_init @ [r]\<rparr>) \<and>
         res_method r = Some ''manual_override'' \<and> score r = Some 100)"
proof -
  let ?s = "sample_record ''S1'' ''Safeguarding Software Developers''
              ''forum.arbitrum.foundation/t/gamma''"
  have h1: "\<not> is_stip_ltipp_protocol (rec_title ?s)" by code_simp
  have h2: "\<not> is_election (rec_title ?s)" by code_simp
  have h3: "override_hit MANUAL_OVERRIDES_SNAPSHOT (rec_title ?s)" by code_simp
  from override_bucket[OF h1 h2 h3, of "sample_env sample_proposals" snapshot_results_init]
    h1 h2 h3
  show ?thesis by blast
qed

end
